theory Spec2Isabelle
  imports Main "HOL-Library.Word" "HOL-Library.Sublist"
begin

unbundle bit_operations_syntax

type_synonym byte = "8 word"

section \<open>Exceptions\<close>

text \<open>
  The exception classes that the source raises or names in its \<^verbatim>\<open>except\<close> clauses, all of
  them subclasses of Python's \<^verbatim>\<open>Exception\<close>. \<open>OtherException\<close> stands for any further
  subclass of \<^verbatim>\<open>Exception\<close> (an \<^verbatim>\<open>AttributeError\<close>, a \<^verbatim>\<open>TypeError\<close>, a
  \<^verbatim>\<open>binascii.Error\<close>, ...).
\<close>

datatype exn =
    WebDriverException
  | TimeoutException
  | NoSuchWindowException
  | NoSuchElementException
  | ConnectionError
  | OSError
  | ValueError
  | IndexError
  | TradingViewScraperError
  | TradingViewClipboardServerError
  | TradingViewServerError
  | OtherException

text \<open>\<^verbatim>\<open>except WebDriverException\<close> also catches selenium's subclasses of it.\<close>

fun is_WebDriverException :: "exn \<Rightarrow> bool" where
  "is_WebDriverException WebDriverException = True"
| "is_WebDriverException TimeoutException = True"
| "is_WebDriverException NoSuchWindowException = True"
| "is_WebDriverException NoSuchElementException = True"
| "is_WebDriverException _ = False"

text \<open>\<^verbatim>\<open>ConnectionError\<close> is a subclass of \<^verbatim>\<open>OSError\<close>.\<close>

fun is_OSError :: "exn \<Rightarrow> bool" where
  "is_OSError ConnectionError = True"
| "is_OSError OSError = True"
| "is_OSError _ = False"

text \<open>The two server-error classes of the source derive from \<^verbatim>\<open>TradingViewScraperError\<close>.\<close>

fun is_TradingViewScraperError :: "exn \<Rightarrow> bool" where
  "is_TradingViewScraperError TradingViewScraperError = True"
| "is_TradingViewScraperError TradingViewClipboardServerError = True"
| "is_TradingViewScraperError TradingViewServerError = True"
| "is_TradingViewScraperError _ = False"

text \<open>
  What \<^verbatim>\<open>driver.quit()\<close> may raise: an \<^verbatim>\<open>Exception\<close>, or \<^verbatim>\<open>KeyboardInterrupt\<close>, which
  is not an \<^verbatim>\<open>Exception\<close> and which \<^verbatim>\<open>close\<close> names in its second handler.
\<close>

datatype raised = Exc exn | KeyboardInterrupt

section \<open>Image bytes to a data URL: \<^verbatim>\<open>_convert_clipboard_to_image_url\<close>\<close>

subsection \<open>Base64 (RFC 4648), as \<^verbatim>\<open>base64.b64encode\<close> computes it\<close>

definition b64_alphabet :: string where
  "b64_alphabet = ''ABCDEFGHIJKLMNOPQRSTUVWXYZabcdefghijklmnopqrstuvwxyz0123456789+/''"

definition b64_char :: "byte \<Rightarrow> char" where
  "b64_char v = b64_alphabet ! unat v"

text \<open>The four 6-bit groups of three bytes \<open>a\<close>, \<open>b\<close>, \<open>c\<close>.\<close>

definition sextet1 :: "byte \<Rightarrow> byte" where
  "sextet1 a = drop_bit 2 a"

definition sextet2 :: "byte \<Rightarrow> byte \<Rightarrow> byte" where
  "sextet2 a b = push_bit 4 (take_bit 2 a) OR drop_bit 4 b"

definition sextet3 :: "byte \<Rightarrow> byte \<Rightarrow> byte" where
  "sextet3 b c = push_bit 2 (take_bit 4 b) OR drop_bit 6 c"

definition sextet4 :: "byte \<Rightarrow> byte" where
  "sextet4 c = take_bit 6 c"

text \<open>A last group of one or two bytes is filled with zero bits and padded with \<open>=\<close>.\<close>

fun b64encode :: "byte list \<Rightarrow> string" where
  "b64encode [] = []"
| "b64encode [a] = [b64_char (sextet1 a), b64_char (sextet2 a 0), CHR ''='', CHR ''='']"
| "b64encode [a, b] =
     [b64_char (sextet1 a), b64_char (sextet2 a b), b64_char (sextet3 b 0), CHR ''='']"
| "b64encode (a # b # c # rest) =
     [b64_char (sextet1 a), b64_char (sextet2 a b), b64_char (sextet3 b c),
      b64_char (sextet4 c)] @ b64encode rest"

text \<open>
  Decoding of padded base64 text, group by group; \<open>None\<close> for a text that is no base64
  encoding.
\<close>

definition b64_value :: "char \<Rightarrow> byte option" where
  "b64_value c = map_of (zip b64_alphabet (map of_nat [0..<64])) c"

definition octet1 :: "byte \<Rightarrow> byte \<Rightarrow> byte" where
  "octet1 v1 v2 = push_bit 2 v1 OR drop_bit 4 v2"

definition octet2 :: "byte \<Rightarrow> byte \<Rightarrow> byte" where
  "octet2 v2 v3 = push_bit 4 v2 OR drop_bit 2 v3"

definition octet3 :: "byte \<Rightarrow> byte \<Rightarrow> byte" where
  "octet3 v3 v4 = push_bit 6 v3 OR v4"

fun b64decode :: "string \<Rightarrow> byte list option" where
  "b64decode [] = Some []"
| "b64decode (c1 # c2 # c3 # c4 # rest) =
     (case (b64_value c1, b64_value c2) of
        (Some v1, Some v2) \<Rightarrow>
          (if rest = [] \<and> c3 = CHR ''='' \<and> c4 = CHR ''='' then Some [octet1 v1 v2]
           else case b64_value c3 of
             None \<Rightarrow> None
           | Some v3 \<Rightarrow>
               (if rest = [] \<and> c4 = CHR ''='' then Some [octet1 v1 v2, octet2 v2 v3]
                else case b64_value c4 of
                  None \<Rightarrow> None
                | Some v4 \<Rightarrow>
                    (case b64decode rest of
                       None \<Rightarrow> None
                     | Some bs \<Rightarrow> Some (octet1 v1 v2 # octet2 v2 v3 # octet3 v3 v4 # bs))))
      | _ \<Rightarrow> None)"
| "b64decode _ = None"

subsection \<open>The conversion\<close>

text \<open>
  \<^verbatim>\<open>base64.b64encode\<close> and the string formatting do not raise on bytes, so the handler of
  the source, which would turn an exception into \<^verbatim>\<open>TradingViewScraperError\<close>, is never
  entered.
\<close>

definition convert_clipboard_to_image_url :: "byte list \<Rightarrow> exn + string" where
  "convert_clipboard_to_image_url image_data =
     Inr (''data:image/png;base64,'' @ b64encode image_data)"

section \<open>Share link to snapshot URL: \<^verbatim>\<open>convert_link_to_image_url\<close>\<close>

subsection \<open>The regular expression\<close>

text \<open>
  The pattern is \<^verbatim>\<open>https://(?:www\.|in\.)?tradingview\.com/x/([a-zA-Z0-9]+)/?\<close>. A match at
  the start of a string tries the alternatives of the optional group in order (\<^verbatim>\<open>www.\<close>,
  \<^verbatim>\<open>in.\<close>, nothing), takes the longest run of letters and digits as the identifier, and
  takes a slash after it when there is one.
\<close>

definition is_alnum :: "char \<Rightarrow> bool" where
  "is_alnum c \<longleftrightarrow>
     c \<in> set ''abcdefghijklmnopqrstuvwxyzABCDEFGHIJKLMNOPQRSTUVWXYZ0123456789''"

fun strip_prefix :: "string \<Rightarrow> string \<Rightarrow> string option" where
  "strip_prefix [] s = Some s"
| "strip_prefix (p # ps) [] = None"
| "strip_prefix (p # ps) (c # cs) = (if p = c then strip_prefix ps cs else None)"

definition link_prefix :: "string \<Rightarrow> string" where
  "link_prefix host = ''https://'' @ host @ ''tradingview.com/x/''"

text \<open>The match with a given host part: the matched text (group 0) and the identifier (group 1).\<close>

definition match_with_host :: "string \<Rightarrow> string \<Rightarrow> (string \<times> string) option" where
  "match_with_host host s =
     (case strip_prefix (link_prefix host) s of
        None \<Rightarrow> None
      | Some rest \<Rightarrow>
          (let match_id = takeWhile is_alnum rest;
               after = dropWhile is_alnum rest;
               slash = (case after of c # _ \<Rightarrow> if c = CHR ''/'' then ''/'' else [] | [] \<Rightarrow> [])
           in if match_id = [] then None
              else Some (link_prefix host @ match_id @ slash, match_id)))"

fun first_match :: "('a \<Rightarrow> 'b option) \<Rightarrow> 'a list \<Rightarrow> 'b option" where
  "first_match f [] = None"
| "first_match f (x # xs) = (case f x of Some y \<Rightarrow> Some y | None \<Rightarrow> first_match f xs)"

definition match_at :: "string \<Rightarrow> (string \<times> string) option" where
  "match_at s = first_match (\<lambda>host. match_with_host host s) [''www.'', ''in.'', []]"

lemma first_match_Some:
  "first_match f xs = Some y \<Longrightarrow> \<exists>x \<in> set xs. f x = Some y"
  by (induction xs) (auto split: option.splits)

lemma strip_prefix_Some: "strip_prefix p s = Some r \<longleftrightarrow> s = p @ r"
  by (induction p s rule: strip_prefix.induct) auto

lemma match_with_host_Some:
  "match_with_host host s = Some (url, match_id) \<Longrightarrow>
     \<exists>rest slash. s = link_prefix host @ rest
       \<and> match_id = takeWhile is_alnum rest \<and> match_id \<noteq> []
       \<and> (slash = ''/'' \<or> slash = [])
       \<and> url = link_prefix host @ match_id @ slash
       \<and> prefix (match_id @ slash) rest"
proof -
  assume m: "match_with_host host s = Some (url, match_id)"
  let ?pre = "link_prefix host"
  from m obtain rest where r: "strip_prefix ?pre s = Some rest"
    by (auto simp: match_with_host_def split: option.splits)
  have s: "s = ?pre @ rest" using r by (simp add: strip_prefix_Some)
  define after where "after = dropWhile is_alnum rest"
  define slash where
    "slash = (case after of c # _ \<Rightarrow> if c = CHR ''/'' then ''/'' else [] | [] \<Rightarrow> [])"
  have rest: "rest = takeWhile is_alnum rest @ after"
    by (simp add: after_def)
  have sl: "slash = ''/'' \<or> slash = []"
    by (simp add: slash_def split: list.splits)
  have pre: "prefix slash after"
    by (auto simp: slash_def split: list.splits)
  from m r have mid: "match_id = takeWhile is_alnum rest" "match_id \<noteq> []"
    and url: "url = ?pre @ match_id @ slash"
    by (auto simp: match_with_host_def Let_def slash_def after_def split: if_splits)
  have "prefix (match_id @ slash) rest"
    using pre rest mid(1) by (metis same_prefix_prefix)
  with s sl mid url show ?thesis
    by (intro exI [of _ rest] exI [of _ slash]) simp
qed

lemma match_at_nonempty: "match_at s = Some (url, match_id) \<Longrightarrow> url \<noteq> []"
  unfolding match_at_def
  by (drule first_match_Some) (auto dest!: match_with_host_Some simp: link_prefix_def)

text \<open>
  \<^verbatim>\<open>re.finditer\<close>: the matches from left to right, each with its start position, the next
  search starting where the previous match ended.
\<close>

function finditer :: "nat \<Rightarrow> string \<Rightarrow> (nat \<times> string \<times> string) list" where
  "finditer pos [] = []"
| "finditer pos (c # cs) =
     (case match_at (c # cs) of
        None \<Rightarrow> finditer (Suc pos) cs
      | Some (url, match_id) \<Rightarrow>
          (pos, url, match_id)
          # finditer (pos + length url) (drop (length url) (c # cs)))"
  by pat_completeness auto
termination
  by (relation "measure (\<lambda>(pos, s). length s)") (auto dest: match_at_nonempty)

subsection \<open>String operations of Python\<close>

text \<open>\<^verbatim>\<open>c.lower()\<close> on the letters of the identifier.\<close>

definition lower :: "char \<Rightarrow> char" where
  "lower c =
     (case map_of (zip ''ABCDEFGHIJKLMNOPQRSTUVWXYZ'' ''abcdefghijklmnopqrstuvwxyz'') c of
        Some l \<Rightarrow> l
      | None \<Rightarrow> c)"

text \<open>
  \<^verbatim>\<open>s.replace(old, new)\<close>: every occurrence of \<open>old\<close>, from left to right and without
  overlap; for an empty \<open>old\<close>, \<open>new\<close> is put before every character and at the end.
\<close>

fun replace_nonempty :: "string \<Rightarrow> string \<Rightarrow> string \<Rightarrow> string" where
  "replace_nonempty old new [] = []"
| "replace_nonempty old new (c # cs) =
     (if old \<noteq> [] \<and> prefix old (c # cs)
      then new @ replace_nonempty old new (drop (length old) (c # cs))
      else c # replace_nonempty old new cs)"

definition str_replace :: "string \<Rightarrow> string \<Rightarrow> string \<Rightarrow> string" where
  "str_replace old new s =
     (if old = [] then new @ concat (map (\<lambda>c. c # new) s) else replace_nonempty old new s)"

text \<open>\<^verbatim>\<open>old in s\<close>\<close>

fun contains :: "string \<Rightarrow> string \<Rightarrow> bool" where
  "contains old [] = (old = [])"
| "contains old (c # cs) = (prefix old (c # cs) \<or> contains old cs)"

subsection \<open>The conversion\<close>

text \<open>The f-string of the new link; \<^verbatim>\<open>match_id[0]\<close> raises on an empty identifier.\<close>

definition new_link :: "string \<Rightarrow> exn + string" where
  "new_link match_id =
     (case match_id of
        [] \<Rightarrow> Inl IndexError
      | c # _ \<Rightarrow>
          Inr (''https://s3.tradingview.com/snapshots/'' @ [lower c] @ ''/'' @ match_id @ ''.png''))"

text \<open>The loop over the matches; the flag \<^verbatim>\<open>found_match\<close> only selects a log message.\<close>

fun convert_matches :: "(nat \<times> string \<times> string) list \<Rightarrow> string \<Rightarrow> exn + string" where
  "convert_matches [] output_string = Inr output_string"
| "convert_matches ((pos, matched_url, match_id) # ms) output_string =
     (case new_link match_id of
        Inl x \<Rightarrow> Inl x
      | Inr link \<Rightarrow>
          convert_matches ms
            (if contains matched_url output_string
             then str_replace matched_url link output_string
             else output_string))"

definition convert_link_to_image_url :: "string option \<Rightarrow> exn + string option" where
  "convert_link_to_image_url input_string =
     (case input_string of
        None \<Rightarrow> Inr None
      | Some s \<Rightarrow>
          if s = [] then Inr None
          else (case convert_matches (finditer 0 s) s of
                  Inl x \<Rightarrow> Inl x
                | Inr output_string \<Rightarrow> Inr (Some output_string)))"

subsection \<open>Share links, as the specification describes them\<close>

text \<open>
  A share link is \<^verbatim>\<open>https://\<close>, optionally \<^verbatim>\<open>www.\<close> or \<^verbatim>\<open>in.\<close>, then
  \<^verbatim>\<open>tradingview.com/x/\<close> and a non-empty identifier of letters and digits. A string has a
  share link when one of its substrings is one.
\<close>

definition share_link :: "string \<Rightarrow> bool" where
  "share_link u \<longleftrightarrow>
     (\<exists>host \<in> set [''www.'', ''in.'', []].
        case strip_prefix (link_prefix host) u of
          None \<Rightarrow> False
        | Some ident \<Rightarrow> ident \<noteq> [] \<and> list_all is_alnum ident)"

definition has_share_link :: "string \<Rightarrow> bool" where
  "has_share_link s \<longleftrightarrow> (\<exists>t \<in> set (suffixes s). \<exists>u \<in> set (prefixes t). share_link u)"

section \<open>The browser session as an environment\<close>

text \<open>
  The scraper talks to the browser through selenium. Each interaction is an \<open>event\<close>; the
  world records the events so far and a clock in milliseconds, which \<^verbatim>\<open>time.time()\<close> reads
  and which \<^verbatim>\<open>time.sleep\<close> and every interaction advance.
\<close>

datatype script =
    ReadText \<comment> \<open>\<^verbatim>\<open>return navigator.clipboard.readText();\<close>\<close>
  | ClearClipboard \<comment> \<open>\<^verbatim>\<open>navigator.clipboard.writeText('');\<close>\<close>
  | HasClipboardApi \<comment> \<open>the check for \<^verbatim>\<open>navigator.clipboard.read\<close>\<close>
  | ReadImage \<comment> \<open>the asynchronous script that reads an image as a data URL\<close>

datatype event =
    InstallDriver \<comment> \<open>\<^verbatim>\<open>ChromeDriverManager().install()\<close>\<close>
  | Launch \<comment> \<open>\<^verbatim>\<open>webdriver.Chrome(...)\<close>\<close>
  | Configure \<comment> \<open>\<^verbatim>\<open>set_script_timeout\<close> and \<^verbatim>\<open>implicitly_wait\<close>\<close>
  | Quit \<comment> \<open>\<^verbatim>\<open>driver.quit()\<close>\<close>
  | Navigate string \<comment> \<open>\<^verbatim>\<open>driver.get(url)\<close>\<close>
  | AddCookie string string \<comment> \<open>\<^verbatim>\<open>driver.add_cookie\<close>, with the cookie's name and value\<close>
  | Refresh \<comment> \<open>\<^verbatim>\<open>driver.refresh()\<close>\<close>
  | FindElement string \<comment> \<open>\<^verbatim>\<open>driver.find_element(By.CSS_SELECTOR, selector)\<close>\<close>
  | FindElements string \<comment> \<open>\<^verbatim>\<open>driver.find_elements(By.CSS_SELECTOR, selector)\<close>\<close>
  | Script script \<comment> \<open>\<^verbatim>\<open>driver.execute_script\<close> and \<^verbatim>\<open>execute_async_script\<close>\<close>
  | Perform string \<comment> \<open>\<^verbatim>\<open>ActionChains(driver)...perform()\<close>, with the name of the key chord\<close>

text \<open>
  The Python values that an interaction returns, as far as the source looks at them:
  \<open>VNone\<close> is \<^verbatim>\<open>None\<close> (or another falsy value that is not a string, a bool or a list),
  \<open>VList n\<close> a list of \<open>n\<close> elements, \<open>VOther\<close> any other truthy object (a
  \<^verbatim>\<open>WebElement\<close>, a number, a dict).
\<close>

datatype val = VNone | VBool bool | VStr string | VList nat | VOther

fun truthy :: "val \<Rightarrow> bool" where
  "truthy VNone = False"
| "truthy (VBool b) = b"
| "truthy (VStr s) = (s \<noteq> [])"
| "truthy (VList n) = (0 < n)"
| "truthy VOther = True"

text \<open>\<^verbatim>\<open>len(v)\<close>: a \<^verbatim>\<open>TypeError\<close> on a value without a length.\<close>

fun py_len :: "val \<Rightarrow> exn + nat" where
  "py_len (VList n) = Inr n"
| "py_len (VStr s) = Inr (length s)"
| "py_len _ = Inl OtherException"

record world =
  clock :: nat
  trace :: "event list"

text \<open>
  A parsed JSON document, as far as \<^verbatim>\<open>_get_clipboard_content\<close> inspects it. \<open>JInt\<close> is a
  number that equals an integer, \<open>JOther\<close> any other value (a fraction, a list, a nested
  object) together with its rendering by \<^verbatim>\<open>str()\<close>.
\<close>

datatype json = JNull | JBool bool | JInt int | JStr string | JOther string

datatype response = Dict "string \<Rightarrow> json option" | NotDict

text \<open>
  Everything outside the source file. \<open>respond ev w\<close> is the time the interaction \<open>ev\<close>
  takes in the world \<open>w\<close> and what it returns or raises; it may depend on the whole history.
  \<open>getenv\<close> is \<^verbatim>\<open>os.getenv\<close>, \<open>platform_system\<close> is \<^verbatim>\<open>platform.system()\<close>,
  \<open>json_loads\<close> is \<^verbatim>\<open>json.loads\<close> (\<open>None\<close> for a \<^verbatim>\<open>JSONDecodeError\<close>) and
  \<open>base64_b64decode\<close> is \<^verbatim>\<open>base64.b64decode\<close>. \<open>quit_raises w\<close> is what a call of
  \<^verbatim>\<open>driver.quit()\<close> in the world \<open>w\<close> raises, if anything.
\<close>

record env =
  respond :: "event \<Rightarrow> world \<Rightarrow> nat \<times> (exn + val)"
  getenv :: "string \<Rightarrow> string option"
  platform_system :: string
  json_loads :: "string \<Rightarrow> response option"
  base64_b64decode :: "string \<Rightarrow> exn + byte list"
  quit_raises :: "world \<Rightarrow> raised option"

definition driver_call :: "env \<Rightarrow> event \<Rightarrow> world \<Rightarrow> (exn + val) \<times> world" where
  "driver_call e ev w =
     (case respond e ev w of
        (d, r) \<Rightarrow> (r, \<lparr>clock = clock w + d, trace = trace w @ [ev]\<rparr>))"

definition sleep :: "nat \<Rightarrow> world \<Rightarrow> world" where
  "sleep ms w = w\<lparr>clock := clock w + ms\<rparr>"

text \<open>Sequencing: an exception of the first step skips the second.\<close>

definition and_then ::
  "(exn + 'a) \<times> world \<Rightarrow> ('a \<Rightarrow> world \<Rightarrow> (exn + 'b) \<times> world) \<Rightarrow> (exn + 'b) \<times> world" where
  "and_then m f = (case m of (Inl x, w) \<Rightarrow> (Inl x, w) | (Inr v, w) \<Rightarrow> f v w)"

text \<open>The fields of the scraper object that the capture operations read.\<close>

record scraper =
  driver :: bool
  use_save_shortcut :: bool
  chart_page_id :: string

subsection \<open>Constants of the class\<close>

definition TRADINGVIEW_CHART_BASE_URL :: string where
  "TRADINGVIEW_CHART_BASE_URL = ''https://in.tradingview.com/chart/''"

definition MAX_CLIPBOARD_ATTEMPTS :: nat where
  "MAX_CLIPBOARD_ATTEMPTS = 5"

definition CLIPBOARD_RETRY_INTERVAL :: nat where
  "CLIPBOARD_RETRY_INTERVAL = 1000"

definition MAX_CHART_WAIT_TIME :: nat where
  "MAX_CHART_WAIT_TIME = 6000"

definition MAX_CLIPBOARD_WAIT_TIME :: nat where
  "MAX_CLIPBOARD_WAIT_TIME = 3000"

definition SAVE_SHORTCUT_IMAGE_DELAY :: nat where
  "SAVE_SHORTCUT_IMAGE_DELAY = 300"

definition ACTION_DELAY :: nat where
  "ACTION_DELAY = 300"

subsection \<open>Strings\<close>

text \<open>
  \<^verbatim>\<open>str.strip()\<close>: the characters below code point 256 for which \<^verbatim>\<open>str.isspace()\<close>
  holds are 9 to 13, 28 to 32, 133 and 160.
\<close>

definition is_space :: "char \<Rightarrow> bool" where
  "is_space c \<longleftrightarrow> (of_char c :: nat) \<in> {9, 10, 11, 12, 13, 28, 29, 30, 31, 32, 133, 160}"

definition strip :: "string \<Rightarrow> string" where
  "strip s = rev (dropWhile is_space (rev (dropWhile is_space s)))"

section \<open>Authentication: \<^verbatim>\<open>_set_auth_cookies_optimized\<close>\<close>

definition set_auth_cookies_optimized ::
  "env \<Rightarrow> scraper \<Rightarrow> string \<Rightarrow> world \<Rightarrow> (exn + bool) \<times> world" where
  "set_auth_cookies_optimized e s chart_url w =
     (case (getenv e ''TRADINGVIEW_SESSION_ID'', getenv e ''TRADINGVIEW_SESSION_ID_SIGN'') of
        (Some session_id_value, Some session_id_sign_value) \<Rightarrow>
          if session_id_value = [] \<or> session_id_sign_value = [] then (Inr False, w)
          else if \<not> driver s then (Inr False, w)
          else
            (case
               and_then (driver_call e (Navigate chart_url) w) (\<lambda>_ w.
               and_then (driver_call e (AddCookie ''sessionid'' session_id_value) w) (\<lambda>_ w.
               and_then (driver_call e (AddCookie ''sessionid_sign'' session_id_sign_value) w) (\<lambda>_ w.
               and_then (driver_call e Refresh w) (\<lambda>_ w. (Inr True, w)))))
             of
               (Inl x, w') \<Rightarrow> if is_WebDriverException x then (Inr False, w') else (Inl x, w')
             | (Inr b, w') \<Rightarrow> (Inr b, w'))
      | _ \<Rightarrow> (Inr False, w))"

section \<open>Readiness probing: \<^verbatim>\<open>_navigate_and_wait\<close>\<close>

subsection \<open>selenium's \<^verbatim>\<open>EC.any_of\<close> and \<^verbatim>\<open>WebDriverWait.until\<close>\<close>

text \<open>
  \<^verbatim>\<open>EC.any_of(c1, ..., cn)\<close> evaluates the conditions in order, returns the first truthy
  result and treats a \<^verbatim>\<open>WebDriverException\<close> of a condition as a falsy result. Each
  condition here is \<^verbatim>\<open>presence_of_element_located\<close>, that is, one \<^verbatim>\<open>find_element\<close>.
\<close>

fun any_of :: "env \<Rightarrow> string list \<Rightarrow> world \<Rightarrow> (exn + bool) \<times> world" where
  "any_of e [] w = (Inr False, w)"
| "any_of e (selector # selectors) w =
     (case driver_call e (FindElement selector) w of
        (Inl x, w') \<Rightarrow> if is_WebDriverException x then any_of e selectors w' else (Inl x, w')
      | (Inr v, w') \<Rightarrow> if truthy v then (Inr True, w') else any_of e selectors w')"

definition infrastructure_selectors :: "string list" where
  "infrastructure_selectors =
     [''#header-toolbar-chart-styles'', ''.tv-header'', ''[data-name='legend-source-item']'',
      ''.chart-container, .tv-chart-container'']"

text \<open>Time and the trace only grow.\<close>

definition advances :: "world \<Rightarrow> world \<Rightarrow> bool" where
  "advances w w' \<longleftrightarrow> clock w \<le> clock w' \<and> prefix (trace w) (trace w')"

lemma advances_refl: "advances w w"
  by (simp add: advances_def)

lemma advances_trans: "advances w w1 \<Longrightarrow> advances w1 w2 \<Longrightarrow> advances w w2"
  by (auto simp: advances_def)

lemma advances_clock: "advances w w' \<Longrightarrow> clock w \<le> clock w'"
  by (simp add: advances_def)

lemma advances_sleep: "advances w (sleep ms w)"
  by (simp add: advances_def sleep_def)

lemma advances_driver_call: "advances w (snd (driver_call e ev w))"
  by (simp add: advances_def driver_call_def split: prod.splits)

lemma clock_driver_call: "(r, w') = driver_call e ev w \<Longrightarrow> clock w \<le> clock w'"
  using advances_driver_call [of w e ev] by (metis advances_clock snd_conv)

lemma advances_and_then:
  assumes "advances w (snd m)"
    and "\<And>v w1. m = (Inr v, w1) \<Longrightarrow> advances w1 (snd (f v w1))"
  shows "advances w (snd (and_then m f))"
proof (cases m)
  case (Pair r w1)
  show ?thesis
  proof (cases r)
    case (Inl x)
    then show ?thesis using Pair assms(1) by (simp add: and_then_def)
  next
    case (Inr v)
    then have "advances w1 (snd (f v w1))" using Pair assms(2) by simp
    moreover have "advances w w1" using Pair assms(1) by simp
    ultimately show ?thesis using Pair Inr by (auto simp: and_then_def intro: advances_trans)
  qed
qed

lemma advances_any_of: "advances w (snd (any_of e sels w))"
proof (induction sels arbitrary: w)
  case Nil
  show ?case by (simp add: advances_refl)
next
  case (Cons selector sels)
  obtain r1 w1 where c: "driver_call e (FindElement selector) w = (r1, w1)"
    by (cases "driver_call e (FindElement selector) w")
  have a: "advances w w1" using advances_driver_call [of w e "FindElement selector"] c by simp
  have b: "advances w (snd (any_of e sels w1))"
    using a Cons.IH [of w1] by (rule advances_trans)
  show ?case using a b c by (cases r1) simp_all
qed

lemma clock_any_of: "(r, w') = any_of e sels w \<Longrightarrow> clock w \<le> clock w'"
  using advances_any_of [of w e sels] by (metis advances_clock snd_conv)

text \<open>
  \<^verbatim>\<open>WebDriverWait(driver, timeout).until(method)\<close> with the default poll interval of half a
  second: evaluate the method, return when it is truthy, sleep, and raise
  \<^verbatim>\<open>TimeoutException\<close> once the end time has passed.
\<close>

function until :: "env \<Rightarrow> nat \<Rightarrow> world \<Rightarrow> (exn + unit) \<times> world" where
  "until e end_time w =
     (case any_of e infrastructure_selectors w of
        (Inl x, w') \<Rightarrow> (Inl x, w')
      | (Inr found, w') \<Rightarrow>
          if found then (Inr (), w')
          else if end_time < clock (sleep 500 w') then (Inl TimeoutException, sleep 500 w')
          else until e end_time (sleep 500 w'))"
  by pat_completeness auto
termination
  apply (relation "measure (\<lambda>(e, end_time, w). Suc end_time - clock w)")
   apply simp
  subgoal for e end_time w x y b
    using clock_any_of [of x y e infrastructure_selectors w]
    by (simp add: sleep_def)
  done

declare until.simps [simp del]

subsection \<open>The CSS selectors of the polling loops\<close>

definition canvas_selector :: string where
  "canvas_selector = ''canvas''"

definition widget_selector :: string where
  "widget_selector = ''.chart-widget, .tv-chart-widget, [data-name='chart-widget']''"

definition price_selector :: string where
  "price_selector = ''.tv-symbol-header, [data-name='legend-source-item']''"

definition spinner_selector :: string where
  "spinner_selector = ''.tv-spinner--shown, .loading, [data-role='spinner']''"

definition legend_selector :: string where
  "legend_selector = ''[data-name='legend-source-item'], .tv-symbol-header, .js-button-text''"

text \<open>\<^verbatim>\<open>except Exception: pass\<close> around a probe: every failure is a miss.\<close>

definition swallow :: "(exn + bool) \<times> world \<Rightarrow> bool \<times> world" where
  "swallow m = (case m of (Inl x, w) \<Rightarrow> (False, w) | (Inr b, w) \<Rightarrow> (b, w))"

lemma snd_swallow: "snd (swallow m) = snd m"
  by (cases m) (auto simp: swallow_def split: sum.splits)

subsection \<open>The three polling loops\<close>

text \<open>One pass of the body of the element loop; \<^verbatim>\<open>except Exception: pass\<close> makes every failure a miss.\<close>

definition element_probe :: "env \<Rightarrow> world \<Rightarrow> bool \<times> world" where
  "element_probe e w =
     swallow (
        and_then (driver_call e (FindElements canvas_selector) w) (\<lambda>canvas_elements w.
        and_then
          (driver_call e
             (FindElements widget_selector) w)
          (\<lambda>chart_widgets w.
        and_then
          (driver_call e (FindElements price_selector) w)
          (\<lambda>price_elements w.
             (case py_len canvas_elements of
                Inl x \<Rightarrow> Inl x
              | Inr nc \<Rightarrow>
                  if 0 < nc then
                    (case py_len price_elements of Inl x \<Rightarrow> Inl x | Inr np \<Rightarrow> Inr (0 < np))
                  else
                    (case py_len chart_widgets of
                       Inl x \<Rightarrow> Inl x
                     | Inr nw \<Rightarrow>
                         if 0 < nw then
                           (case py_len price_elements of Inl x \<Rightarrow> Inl x | Inr np \<Rightarrow> Inr (0 < np))
                         else Inr False),
              w))))
     )"

definition loading_probe :: "env \<Rightarrow> world \<Rightarrow> bool \<times> world" where
  "loading_probe e w =
     swallow (
        and_then (driver_call e (FindElements spinner_selector) w) (\<lambda>loading_indicators w.
          (Inr (\<not> truthy loading_indicators), w)))"

definition data_probe :: "env \<Rightarrow> world \<Rightarrow> bool \<times> world" where
  "data_probe e w =
     swallow (
        and_then
          (driver_call e
             (FindElements legend_selector) w)
          (\<lambda>price_elements w.
        and_then (driver_call e (FindElements canvas_selector) w) (\<lambda>canvas_elements w.
        and_then
          (driver_call e (FindElements spinner_selector) w)
          (\<lambda>loading_indicators w.
             (case py_len price_elements of
                Inl x \<Rightarrow> Inl x
              | Inr np \<Rightarrow>
                  if 0 < np then
                    (case py_len canvas_elements of
                       Inl x \<Rightarrow> Inl x
                     | Inr nc \<Rightarrow> Inr (0 < nc \<and> \<not> truthy loading_indicators))
                  else Inr False,
              w))))
     )"

lemma advances_element_probe: "advances w (snd (element_probe e w))"
  unfolding element_probe_def snd_swallow
  by (intro advances_and_then advances_driver_call) (simp add: advances_refl)

lemma clock_element_probe: "(r, w') = element_probe e w \<Longrightarrow> clock w \<le> clock w'"
  using advances_element_probe [of w e] by (metis advances_clock snd_conv)

lemma advances_loading_probe: "advances w (snd (loading_probe e w))"
  unfolding loading_probe_def snd_swallow
  by (intro advances_and_then advances_driver_call) (simp add: advances_refl)

lemma clock_loading_probe: "(r, w') = loading_probe e w \<Longrightarrow> clock w \<le> clock w'"
  using advances_loading_probe [of w e] by (metis advances_clock snd_conv)

lemma advances_data_probe: "advances w (snd (data_probe e w))"
  unfolding data_probe_def snd_swallow
  by (intro advances_and_then advances_driver_call) (simp add: advances_refl)

lemma clock_data_probe: "(r, w') = data_probe e w \<Longrightarrow> clock w \<le> clock w'"
  using advances_data_probe [of w e] by (metis advances_clock snd_conv)

text \<open>
  The element loop: at most two seconds, until a drawing surface and price metadata are
  there.
\<close>

function element_poll :: "env \<Rightarrow> nat \<Rightarrow> world \<Rightarrow> bool \<times> world" where
  "element_poll e element_wait_start w =
     (if clock w - element_wait_start < 2000 then
        (case element_probe e w of
           (chart_elements_ready, w') \<Rightarrow>
             if chart_elements_ready then (True, w')
             else element_poll e element_wait_start (sleep 100 w'))
      else (False, w))"
  by pat_completeness auto
termination
  apply (relation "measure (\<lambda>(e, start, w). start + 2000 - clock w)")
   apply simp
  subgoal for e start w r w'
    using clock_element_probe [of r w' e w]
    by (simp add: sleep_def)
  done

declare element_poll.simps [simp del]

text \<open>The spinner loop of the save-shortcut method: at most a second and a half.\<close>

function loading_poll :: "env \<Rightarrow> nat \<Rightarrow> world \<Rightarrow> world" where
  "loading_poll e loading_check_start w =
     (if clock w - loading_check_start < 1500 then
        (case loading_probe e w of
           (cleared, w') \<Rightarrow>
             if cleared then w' else loading_poll e loading_check_start (sleep 100 w'))
      else w)"
  by pat_completeness auto
termination
  apply (relation "measure (\<lambda>(e, start, w). start + 1500 - clock w)")
   apply simp
  subgoal for e start w r w'
    using clock_loading_probe [of r w' e w]
    by (simp add: sleep_def)
  done

declare loading_poll.simps [simp del]

text \<open>The data loop of the traditional method: at most two seconds.\<close>

function data_poll :: "env \<Rightarrow> nat \<Rightarrow> world \<Rightarrow> bool \<times> world" where
  "data_poll e data_wait_start w =
     (if clock w - data_wait_start < 2000 then
        (case data_probe e w of
           (chart_ready, w') \<Rightarrow>
             if chart_ready then (True, w')
             else data_poll e data_wait_start (sleep 100 w'))
      else (False, w))"
  by pat_completeness auto
termination
  apply (relation "measure (\<lambda>(e, start, w). start + 2000 - clock w)")
   apply simp
  subgoal for e start w r w'
    using clock_data_probe [of r w' e w]
    by (simp add: sleep_def)
  done

declare data_poll.simps [simp del]

subsection \<open>The whole of \<^verbatim>\<open>_navigate_and_wait\<close>\<close>

text \<open>
  The inner \<^verbatim>\<open>try\<close>: the infrastructure wait, the element loop and the loop of the
  configured method; a \<^verbatim>\<open>TimeoutException\<close> leads to the half-second fallback.
\<close>

definition wait_for_chart :: "env \<Rightarrow> scraper \<Rightarrow> world \<Rightarrow> (exn + unit) \<times> world" where
  "wait_for_chart e s w =
     (case until e (clock w + MAX_CHART_WAIT_TIME) w of
        (Inl x, w1) \<Rightarrow> if x = TimeoutException then (Inr (), sleep 500 w1) else (Inl x, w1)
      | (Inr _, w1) \<Rightarrow>
          (case element_poll e (clock w1) w1 of
             (chart_elements_ready, w2) \<Rightarrow>
               if use_save_shortcut s then (Inr (), loading_poll e (clock w2) w2)
               else (Inr (), snd (data_poll e (clock w2) w2))))"

definition navigate_and_wait ::
  "env \<Rightarrow> scraper \<Rightarrow> string \<Rightarrow> world \<Rightarrow> (exn + unit) \<times> world" where
  "navigate_and_wait e s url w =
     (if \<not> driver s then (Inl TradingViewScraperError, w)
      else
        (case and_then (driver_call e (Navigate url) w) (\<lambda>_ w. wait_for_chart e s w) of
           (Inl x, w') \<Rightarrow>
             if is_WebDriverException x then (Inl TradingViewScraperError, w') else (Inl x, w')
         | (Inr u, w') \<Rightarrow> (Inr u, w')))"

section \<open>Key chords\<close>

text \<open>The save chord of the platform: with the command key on macOS, with control elsewhere.\<close>

definition save_chord :: "env \<Rightarrow> string" where
  "save_chord e = (if platform_system e = ''Darwin'' then ''Shift+Cmd+S'' else ''Shift+Ctrl+S'')"

text \<open>\<^verbatim>\<open>_send_save_shortcut\<close>; its handler re-raises what sending the chord raised.\<close>

definition send_save_shortcut :: "env \<Rightarrow> scraper \<Rightarrow> world \<Rightarrow> (exn + unit) \<times> world" where
  "send_save_shortcut e s w =
     (if \<not> driver s then (Inl TradingViewScraperError, w)
      else
        (case driver_call e (Perform (save_chord e)) w of
           (Inl x, w') \<Rightarrow> (Inl x, w')
         | (Inr _, w') \<Rightarrow> (Inr (), w')))"

text \<open>
  \<^verbatim>\<open>_try_alternative_shortcuts\<close>: the first chord that is sent without a
  \<^verbatim>\<open>WebDriverException\<close> ends the search, after a pause of two seconds.
\<close>

fun try_shortcuts :: "env \<Rightarrow> string list \<Rightarrow> world \<Rightarrow> (exn + bool) \<times> world" where
  "try_shortcuts e [] w = (Inr False, w)"
| "try_shortcuts e (shortcut_name # shortcuts) w =
     (case driver_call e (Perform shortcut_name) w of
        (Inl x, w') \<Rightarrow>
          if is_WebDriverException x then try_shortcuts e shortcuts w' else (Inl x, w')
      | (Inr _, w') \<Rightarrow> (Inr True, sleep 2000 w'))"

definition try_alternative_shortcuts :: "env \<Rightarrow> world \<Rightarrow> (exn + bool) \<times> world" where
  "try_alternative_shortcuts e w = try_shortcuts e [''Ctrl+Alt+S'', ''Ctrl+S'', ''Alt+Shift+S''] w"

section \<open>Reading the clipboard\<close>

text \<open>
  \<^verbatim>\<open>v and v.strip()\<close> as a condition on a clipboard text \<open>v\<close>: the text when it is a string
  with a character that is not white space, nothing when \<open>v\<close> is falsy or blank, and an
  \<^verbatim>\<open>AttributeError\<close> when \<open>v\<close> is a truthy value without \<^verbatim>\<open>strip\<close>.
\<close>

fun nonblank_text :: "val \<Rightarrow> exn + string option" where
  "nonblank_text (VStr t) = Inr (if strip t \<noteq> [] then Some t else None)"
| "nonblank_text v = (if truthy v then Inl OtherException else Inr None)"

text \<open>\<^verbatim>\<open>v and isinstance(v, str) and v.strip()\<close>, with the stripped text as the result.\<close>

fun stripped_text :: "val \<Rightarrow> string option" where
  "stripped_text (VStr t) = (if strip t \<noteq> [] then Some (strip t) else None)"
| "stripped_text v = None"

text \<open>One read of the text clipboard in which a \<^verbatim>\<open>WebDriverException\<close> counts as \<^verbatim>\<open>None\<close>.\<close>

definition read_text_or_none :: "env \<Rightarrow> world \<Rightarrow> (exn + val) \<times> world" where
  "read_text_or_none e w =
     (case driver_call e (Script ReadText) w of
        (Inl x, w') \<Rightarrow> if is_WebDriverException x then (Inr VNone, w') else (Inl x, w')
      | (Inr v, w') \<Rightarrow> (Inr v, w'))"

subsection \<open>\<^verbatim>\<open>_read_image_from_clipboard\<close>\<close>

text \<open>\<^verbatim>\<open>header, data = url.split(",", 1)\<close>: a \<^verbatim>\<open>ValueError\<close> without a comma.\<close>

definition split_comma :: "string \<Rightarrow> exn + string \<times> string" where
  "split_comma u =
     (if CHR '','' \<in> set u
      then Inr (takeWhile (\<lambda>c. c \<noteq> CHR '','') u, tl (dropWhile (\<lambda>c. c \<noteq> CHR '','') u))
      else Inl ValueError)"

definition decode_data_url :: "env \<Rightarrow> val \<Rightarrow> exn + byte list option" where
  "decode_data_url e image_data_url =
     (if \<not> truthy image_data_url then Inr None
      else
        (case image_data_url of
           VStr u \<Rightarrow>
             if prefix ''data:image/'' u then
               (case split_comma u of
                  Inl x \<Rightarrow> Inl x
                | Inr (header, data) \<Rightarrow>
                    (case base64_b64decode e data of
                       Inl x \<Rightarrow> Inl x
                     | Inr image_bytes \<Rightarrow> Inr (Some image_bytes)))
             else Inr None
         | _ \<Rightarrow> Inl OtherException))"

definition read_image_from_clipboard ::
  "env \<Rightarrow> scraper \<Rightarrow> world \<Rightarrow> (exn + byte list option) \<times> world" where
  "read_image_from_clipboard e s w =
     (if \<not> driver s then (Inl TradingViewScraperError, w)
      else
        (case
           and_then (driver_call e (Script HasClipboardApi) w) (\<lambda>has_clipboard_api w.
             if \<not> truthy has_clipboard_api then (Inr None, w)
             else
               and_then (driver_call e (Script ReadImage) w) (\<lambda>image_data_url w.
                 (decode_data_url e image_data_url, w)))
         of
           (Inl x, w') \<Rightarrow> if is_WebDriverException x then (Inr None, w') else (Inl x, w')
         | (Inr image_bytes, w') \<Rightarrow> (Inr image_bytes, w')))"

subsection \<open>The server error in the clipboard text\<close>

definition code_retryable :: "json \<Rightarrow> bool" where
  "code_retryable error_code =
     (case error_code of
        JStr c \<Rightarrow> c \<in> set [''40001'', ''50000'', ''502'', ''503'']
      | JInt n \<Rightarrow> n \<in> set [40001, 50000, 502, 503]
      | _ \<Rightarrow> False)"

text \<open>\<^verbatim>\<open>"Server Error" in str(error_msg)\<close>\<close>

definition msg_mentions_server_error :: "json \<Rightarrow> bool" where
  "msg_mentions_server_error error_msg =
     (case error_msg of
        JStr m \<Rightarrow> contains ''Server Error'' m
      | JOther rendering \<Rightarrow> contains ''Server Error'' rendering
      | _ \<Rightarrow> False)"

definition retryable_server_error :: "env \<Rightarrow> string \<Rightarrow> bool" where
  "retryable_server_error e clipboard_content =
     (case json_loads e clipboard_content of
        Some (Dict response) \<Rightarrow>
          (case (response ''code'', response ''msg'') of
             (Some error_code, Some error_msg) \<Rightarrow>
               response ''success'' = Some (JBool False)
               \<and> (code_retryable error_code \<or> msg_mentions_server_error error_msg)
           | _ \<Rightarrow> False)
      | _ \<Rightarrow> False)"

section \<open>Capture through the save shortcut: \<^verbatim>\<open>_get_clipboard_content\<close>\<close>

text \<open>One pass of the retry loop with \<^verbatim>\<open>use_save_shortcut\<close>: the image clipboard.\<close>

definition image_attempt :: "env \<Rightarrow> scraper \<Rightarrow> world \<Rightarrow> (exn + string option) \<times> world" where
  "image_attempt e s w =
     and_then (send_save_shortcut e s w) (\<lambda>_ w.
     and_then (read_image_from_clipboard e s (sleep SAVE_SHORTCUT_IMAGE_DELAY w)) (\<lambda>image_data w.
       (case image_data of
          None \<Rightarrow> (Inr None, w)
        | Some image_bytes \<Rightarrow>
            if image_bytes = [] then (Inr None, w)
            else
              (case convert_clipboard_to_image_url image_bytes of
                 Inl x \<Rightarrow> (Inl x, w)
               | Inr data_url \<Rightarrow> (Inr (Some data_url), w)))))"

text \<open>The polling loop of the traditional method, every tenth of a second for three seconds.\<close>

function text_poll :: "env \<Rightarrow> nat \<Rightarrow> world \<Rightarrow> (exn + string option) \<times> world" where
  "text_poll e clipboard_wait_start w =
     (if clock w - clipboard_wait_start < MAX_CLIPBOARD_WAIT_TIME then
        (case driver_call e (Script ReadText) w of
           (Inl x, w') \<Rightarrow>
             if is_WebDriverException x then text_poll e clipboard_wait_start (sleep 100 w')
             else (Inl x, w')
         | (Inr test_content, w') \<Rightarrow>
             (case nonblank_text test_content of
                Inl x \<Rightarrow> (Inl x, w')
              | Inr (Some t) \<Rightarrow> (Inr (Some t), w')
              | Inr None \<Rightarrow> text_poll e clipboard_wait_start (sleep 100 w')))
      else (Inr None, w))"
  by pat_completeness auto
termination
  apply (relation "measure (\<lambda>(e, start, w). start + MAX_CLIPBOARD_WAIT_TIME - clock w)")
    apply simp
  subgoal for e start w r w'
    using clock_driver_call [of r w' e "Script ReadText" w] by (simp add: sleep_def)
  subgoal for e start w r w'
    using clock_driver_call [of r w' e "Script ReadText" w] by (simp add: sleep_def)
  done

declare text_poll.simps [simp del]

text \<open>One pass of the retry loop of the traditional method: the text clipboard.\<close>

definition text_attempt :: "env \<Rightarrow> scraper \<Rightarrow> world \<Rightarrow> (exn + string option) \<times> world" where
  "text_attempt e s w =
     and_then (send_save_shortcut e s w) (\<lambda>_ w.
     and_then (text_poll e (clock w) w) (\<lambda>polled w.
     and_then
       (case polled of
          Some t \<Rightarrow> (Inr (Some t), w)
        | None \<Rightarrow> and_then (read_text_or_none e w) (\<lambda>v w. (nonblank_text v, w)))
       (\<lambda>clipboard_content w.
          case clipboard_content of
            Some t \<Rightarrow>
              if retryable_server_error e t then (Inl TradingViewClipboardServerError, w)
              else (Inr (Some t), w)
          | None \<Rightarrow>
              and_then (try_alternative_shortcuts e w) (\<lambda>produced w.
                if produced then
                  and_then (read_text_or_none e w) (\<lambda>alt_clipboard_content w.
                    (nonblank_text alt_clipboard_content, w))
                else (Inr None, w)))))"

definition retry_wait :: "scraper \<Rightarrow> nat \<Rightarrow> world \<Rightarrow> world" where
  "retry_wait s attempt w =
     (if attempt < MAX_CLIPBOARD_ATTEMPTS - 1
      then sleep (if use_save_shortcut s then 500 else CLIPBOARD_RETRY_INTERVAL) w
      else w)"

function get_clipboard_attempts ::
  "env \<Rightarrow> scraper \<Rightarrow> nat \<Rightarrow> world \<Rightarrow> (exn + string) \<times> world" where
  "get_clipboard_attempts e s attempt w =
     (if attempt < MAX_CLIPBOARD_ATTEMPTS then
        (case (if use_save_shortcut s then image_attempt e s w else text_attempt e s w) of
           (Inl x, w') \<Rightarrow>
             if x = TradingViewClipboardServerError \<or> is_WebDriverException x
             then get_clipboard_attempts e s (Suc attempt) (retry_wait s attempt w')
             else (Inl x, w')
         | (Inr (Some content), w') \<Rightarrow> (Inr content, w')
         | (Inr None, w') \<Rightarrow> get_clipboard_attempts e s (Suc attempt) (retry_wait s attempt w'))
      else (Inl TradingViewScraperError, w))"
  by pat_completeness auto
termination
  by (relation "measure (\<lambda>(e, s, attempt, w). MAX_CLIPBOARD_ATTEMPTS - attempt)") auto

declare get_clipboard_attempts.simps [simp del]

definition get_clipboard_content :: "env \<Rightarrow> scraper \<Rightarrow> world \<Rightarrow> (exn + string) \<times> world" where
  "get_clipboard_content e s w =
     (if \<not> driver s then (Inl TradingViewScraperError, w) else get_clipboard_attempts e s 0 w)"

section \<open>Capture of the share link: \<^verbatim>\<open>_trigger_screenshot_and_get_link\<close>\<close>

text \<open>The polling loop, every fifth of a second for five seconds.\<close>

function link_poll :: "env \<Rightarrow> nat \<Rightarrow> world \<Rightarrow> (exn + string option) \<times> world" where
  "link_poll e clipboard_wait_start w =
     (if clock w - clipboard_wait_start < 5000 then
        (case driver_call e (Script ReadText) w of
           (Inl x, w') \<Rightarrow>
             if is_WebDriverException x then link_poll e clipboard_wait_start (sleep 200 w')
             else (Inl x, w')
         | (Inr test_content, w') \<Rightarrow>
             (case stripped_text test_content of
                Some t \<Rightarrow> (Inr (Some t), w')
              | None \<Rightarrow> link_poll e clipboard_wait_start (sleep 200 w')))
      else (Inr None, w))"
  by pat_completeness auto
termination
  apply (relation "measure (\<lambda>(e, start, w). start + 5000 - clock w)")
    apply simp
  subgoal for e start w r w'
    using clock_driver_call [of r w' e "Script ReadText" w] by (simp add: sleep_def)
  subgoal for e start w r w'
    using clock_driver_call [of r w' e "Script ReadText" w] by (simp add: sleep_def)
  done

declare link_poll.simps [simp del]

text \<open>One pass of the retry loop, inside its \<^verbatim>\<open>try\<close>.\<close>

definition link_attempt :: "env \<Rightarrow> world \<Rightarrow> (exn + string option) \<times> world" where
  "link_attempt e w =
     and_then (driver_call e (Perform ''Alt+S'') w) (\<lambda>_ w.
     and_then (link_poll e (clock w) w) (\<lambda>polled w.
     and_then
       (case polled of
          Some t \<Rightarrow> (Inr (VStr t), w)
        | None \<Rightarrow> read_text_or_none e w)
       (\<lambda>clipboard_content w. (Inr (stripped_text clipboard_content), w))))"

function link_attempts :: "env \<Rightarrow> nat \<Rightarrow> world \<Rightarrow> (exn + string option) \<times> world" where
  "link_attempts e attempt w =
     (if attempt < MAX_CLIPBOARD_ATTEMPTS then
        (case link_attempt e w of
           (Inl x, w') \<Rightarrow> if is_WebDriverException x then (Inr None, w') else (Inl x, w')
         | (Inr (Some link), w') \<Rightarrow> (Inr (Some link), w')
         | (Inr None, w') \<Rightarrow>
             link_attempts e (Suc attempt)
               (if attempt < MAX_CLIPBOARD_ATTEMPTS - 1 then sleep CLIPBOARD_RETRY_INTERVAL w'
                else w'))
      else (Inr None, w))"
  by pat_completeness auto
termination
  by (relation "measure (\<lambda>(e, attempt, w). MAX_CLIPBOARD_ATTEMPTS - attempt)") auto

declare link_attempts.simps [simp del]

definition trigger_screenshot_and_get_link ::
  "env \<Rightarrow> scraper \<Rightarrow> world \<Rightarrow> (exn + string option) \<times> world" where
  "trigger_screenshot_and_get_link e s w =
     (if \<not> driver s then (Inl TradingViewScraperError, w) else link_attempts e 0 w)"

section \<open>The capture operations\<close>

definition chart_url :: "scraper \<Rightarrow> string \<Rightarrow> string \<Rightarrow> string" where
  "chart_url s ticker interval =
     TRADINGVIEW_CHART_BASE_URL @ chart_page_id s @ ''/?symbol='' @ ticker @ ''&interval='' @ interval"

definition clear_clipboard :: "env \<Rightarrow> world \<Rightarrow> (exn + unit) \<times> world" where
  "clear_clipboard e w =
     (case driver_call e (Script ClearClipboard) w of
        (Inl x, w') \<Rightarrow> if is_WebDriverException x then (Inr (), w') else (Inl x, w')
      | (Inr _, w') \<Rightarrow> (Inr (), sleep ACTION_DELAY w'))"

definition get_chart_image_url ::
  "env \<Rightarrow> scraper \<Rightarrow> string \<Rightarrow> string \<Rightarrow> world \<Rightarrow> (exn + string option) \<times> world" where
  "get_chart_image_url e s ticker interval w =
     (if \<not> driver s then (Inl TradingViewScraperError, w)
      else if ticker = [] \<or> interval = [] then (Inl ValueError, w)
      else
        (case
           and_then (set_auth_cookies_optimized e s (chart_url s ticker interval) w) (\<lambda>_ w.
           and_then (navigate_and_wait e s (chart_url s ticker interval) w) (\<lambda>_ w.
           and_then (clear_clipboard e w) (\<lambda>_ w.
           and_then (get_clipboard_content e s w) (\<lambda>image_url w. (Inr (Some image_url), w)))))
         of
           (Inl x, w') \<Rightarrow> (Inr None, w')
         | (Inr image_url, w') \<Rightarrow> (Inr image_url, w')))"

definition get_screenshot_link ::
  "env \<Rightarrow> scraper \<Rightarrow> string \<Rightarrow> string \<Rightarrow> world \<Rightarrow> (exn + string option) \<times> world" where
  "get_screenshot_link e s ticker interval w =
     (if \<not> driver s then (Inl TradingViewScraperError, w)
      else if ticker = [] \<or> interval = [] then (Inl ValueError, w)
      else
        (case
           and_then (set_auth_cookies_optimized e s (chart_url s ticker interval) w) (\<lambda>_ w.
           and_then (navigate_and_wait e s (chart_url s ticker interval) w) (\<lambda>_ w.
             trigger_screenshot_and_get_link e s w))
         of
           (Inl x, w') \<Rightarrow>
             if is_TradingViewScraperError x then (Inl x, w')
             else (Inl TradingViewScraperError, w')
         | (Inr clipboard_link, w') \<Rightarrow> (Inr clipboard_link, w')))"

section \<open>Session acquisition and release\<close>

text \<open>
  \<^verbatim>\<open>_get_chromedriver_path\<close>: every failure to find or install the driver binary ends in
  \<^verbatim>\<open>TradingViewScraperError\<close>, on every platform.
\<close>

definition get_chromedriver_path :: "env \<Rightarrow> world \<Rightarrow> (exn + val) \<times> world" where
  "get_chromedriver_path e w =
     (case driver_call e InstallDriver w of
        (Inl x, w') \<Rightarrow> (Inl TradingViewScraperError, w')
      | (Inr chromedriver_path, w') \<Rightarrow> (Inr chromedriver_path, w'))"

text \<open>\<^verbatim>\<open>_setup_driver\<close>, called by \<^verbatim>\<open>__enter__\<close>; \<^verbatim>\<open>self.driver\<close> is set once Chrome has started.\<close>

definition setup_driver :: "env \<Rightarrow> scraper \<Rightarrow> world \<Rightarrow> (exn + unit) \<times> scraper \<times> world" where
  "setup_driver e s w =
     (case get_chromedriver_path e w of
        (Inl x, w1) \<Rightarrow> (Inl x, s, w1)
      | (Inr _, w1) \<Rightarrow>
          (case driver_call e Launch w1 of
             (Inl x, w2) \<Rightarrow>
               (Inl (if is_WebDriverException x then TradingViewScraperError else x), s, w2)
           | (Inr _, w2) \<Rightarrow>
               (case driver_call e Configure w2 of
                  (Inl x, w3) \<Rightarrow>
                    (Inl (if is_WebDriverException x then TradingViewScraperError else x),
                     s\<lparr>driver := True\<rparr>, w3)
                | (Inr _, w3) \<Rightarrow> (Inr (), s\<lparr>driver := True\<rparr>, w3))))"

text \<open>
  \<^verbatim>\<open>close\<close>, called by \<^verbatim>\<open>__exit__\<close>. The handlers are tried in the source's order; the
  result is \<open>Inl r\<close> when \<open>r\<close> escapes.
\<close>

definition close :: "env \<Rightarrow> scraper \<Rightarrow> world \<Rightarrow> (raised + scraper) \<times> world" where
  "close e s w =
     (if driver s then
        (let w' = w\<lparr>trace := trace w @ [Quit]\<rparr> in
         case quit_raises e w of
           None \<Rightarrow> (Inr (s\<lparr>driver := False\<rparr>), w')
         | Some (Exc x) \<Rightarrow>
             if is_WebDriverException x then (Inr s, w')
             else if is_OSError x then (Inr (s\<lparr>driver := False\<rparr>), w')
             else (Inr (s\<lparr>driver := False\<rparr>), w')
         | Some KeyboardInterrupt \<Rightarrow> (Inr (s\<lparr>driver := False\<rparr>), w'))
      else (Inr s, w))"

text \<open>Two calls of \<^verbatim>\<open>close\<close> in a row.\<close>

definition close_twice :: "env \<Rightarrow> scraper \<Rightarrow> world \<Rightarrow> (raised + scraper) \<times> world" where
  "close_twice e s w =
     (case close e s w of (Inl r, w') \<Rightarrow> (Inl r, w') | (Inr s', w') \<Rightarrow> close e s' w')"

section \<open>The tool of \<^verbatim>\<open>main.py\<close>: \<^verbatim>\<open>get_tradingview_chart_image\<close>\<close>

text \<open>
  The three \<^verbatim>\<open>except\<close> clauses of the tool re-raise an \<^verbatim>\<open>Exception\<close> whose message starts
  with \<^verbatim>\<open>Scraper Error\<close>, \<^verbatim>\<open>Input Error\<close> or \<^verbatim>\<open>Unexpected error\<close>.
\<close>

datatype tool_failure = ScraperFailure | InputFailure | UnexpectedFailure | Interrupted

definition tool_failure_of :: "exn \<Rightarrow> tool_failure" where
  "tool_failure_of x =
     (if is_TradingViewScraperError x then ScraperFailure
      else if x = ValueError then InputFailure
      else UnexpectedFailure)"

definition DEFAULT_CHART_PAGE_ID :: string where
  "DEFAULT_CHART_PAGE_ID = ''XHDbt5Yy''"

definition CHART_PAGE_ID :: "env \<Rightarrow> string" where
  "CHART_PAGE_ID e =
     (case getenv e ''MCP_SCRAPER_CHART_PAGE_ID'' of
        None \<Rightarrow> DEFAULT_CHART_PAGE_ID
      | Some c \<Rightarrow> if c = [] then DEFAULT_CHART_PAGE_ID else c)"

text \<open>The body of the \<^verbatim>\<open>with\<close> statement.\<close>

definition tool_body ::
  "env \<Rightarrow> scraper \<Rightarrow> string \<Rightarrow> string \<Rightarrow> world \<Rightarrow> (exn + string) \<times> world" where
  "tool_body e s ticker interval w =
     and_then (get_screenshot_link e s ticker interval w) (\<lambda>screenshot_link w.
       case screenshot_link of
         None \<Rightarrow> (Inl TradingViewScraperError, w)
       | Some link \<Rightarrow>
           if link = [] then (Inl TradingViewScraperError, w)
           else
             (case convert_link_to_image_url (Some link) of
                Inl x \<Rightarrow> (Inl x, w)
              | Inr None \<Rightarrow> (Inl TradingViewScraperError, w)
              | Inr (Some image_url) \<Rightarrow>
                  if image_url = [] then (Inl TradingViewScraperError, w)
                  else (Inr image_url, w)))"

definition get_tradingview_chart_image ::
  "env \<Rightarrow> string \<Rightarrow> string \<Rightarrow> world \<Rightarrow> (tool_failure + string) \<times> world" where
  "get_tradingview_chart_image e ticker interval w =
     (case
        setup_driver e
          \<lparr>driver = False, use_save_shortcut = True, chart_page_id = CHART_PAGE_ID e\<rparr> w
      of
        (Inl x, s1, w1) \<Rightarrow> (Inl (tool_failure_of x), w1)
      | (Inr _, s1, w1) \<Rightarrow>
          (case tool_body e s1 ticker interval w1 of
             (r, w2) \<Rightarrow>
               (case close e s1 w2 of
                  (Inl KeyboardInterrupt, w3) \<Rightarrow> (Inl Interrupted, w3)
                | (Inl (Exc y), w3) \<Rightarrow> (Inl (tool_failure_of y), w3)
                | (Inr s2, w3) \<Rightarrow>
                    (case r of
                       Inl x \<Rightarrow> (Inl (tool_failure_of x), w3)
                     | Inr image_url \<Rightarrow> (Inr image_url, w3)))))"

section \<open>Notions used in the statements\<close>

text \<open>
  A read of the clipboard that yields nothing: a \<^verbatim>\<open>WebDriverException\<close>, or a value that
  is falsy or a blank string.
\<close>

fun blank :: "val \<Rightarrow> bool" where
  "blank (VStr t) = (strip t = [])"
| "blank v = (\<not> truthy v)"

definition yields_nothing :: "exn + val \<Rightarrow> bool" where
  "yields_nothing r = (case r of Inl x \<Rightarrow> is_WebDriverException x | Inr v \<Rightarrow> blank v)"

text \<open>
  A read of the image clipboard that yields no image: a \<^verbatim>\<open>WebDriverException\<close>, a falsy
  value (the script calls back with \<^verbatim>\<open>null\<close> when the clipboard holds no image or the read
  takes more than three seconds), a string that is not an image data URL, or a data URL of
  no bytes.
\<close>

definition no_image :: "env \<Rightarrow> exn + val \<Rightarrow> bool" where
  "no_image e r =
     (case r of
        Inl x \<Rightarrow> is_WebDriverException x
      | Inr (VStr u) \<Rightarrow>
          \<not> prefix ''data:image/'' u
          \<or> (case split_comma u of
                Inl x \<Rightarrow> False
              | Inr (header, data) \<Rightarrow> base64_b64decode e data = Inr [])
      | Inr v \<Rightarrow> \<not> truthy v)"

text \<open>An interaction that returns, or raises a \<^verbatim>\<open>WebDriverException\<close>, but nothing else.\<close>

definition no_other_exception :: "exn + val \<Rightarrow> bool" where
  "no_other_exception r = (case r of Inl x \<Rightarrow> is_WebDriverException x | Inr v \<Rightarrow> True)"

text \<open>From \<open>w\<close> to \<open>w'\<close> time does not go back and at most \<open>n\<close> interactions are made.\<close>

definition within :: "nat \<Rightarrow> world \<Rightarrow> world \<Rightarrow> bool" where
  "within n w w' \<longleftrightarrow> clock w \<le> clock w' \<and> length (trace w') \<le> length (trace w) + n"

text \<open>
  How many times a key chord has been sent: every pass of a retry loop sends its chord
  once, at its start, so this counts the attempts.
\<close>

definition sends :: "string \<Rightarrow> world \<Rightarrow> nat" where
  "sends chord w = count_list (trace w) (Perform chord)"

section \<open>Concrete environments\<close>

text \<open>
  A browser in which every interaction returns \<^verbatim>\<open>None\<close> at once, no credentials are
  configured and nothing raises; the concrete inputs below vary it.
\<close>

definition quiet_env :: env where
  "quiet_env =
     \<lparr>respond = (\<lambda>ev w. (0, Inr VNone)),
      getenv = (\<lambda>name. None),
      platform_system = ''Linux'',
      json_loads = (\<lambda>text. None),
      base64_b64decode = (\<lambda>text. Inl OtherException),
      quit_raises = (\<lambda>w. None)\<rparr>"

definition fresh :: world where
  "fresh = \<lparr>clock = 0, trace = []\<rparr>"

text \<open>A scraper whose driver is set, for the save-shortcut method or the traditional one.\<close>

definition live_scraper :: "bool \<Rightarrow> scraper" where
  "live_scraper save_shortcut =
     \<lparr>driver = True, use_save_shortcut = save_shortcut, chart_page_id = DEFAULT_CHART_PAGE_ID\<rparr>"

text \<open>The key chord of the share link cannot be sent.\<close>

definition keys_fail_env :: env where
  "keys_fail_env =
     quiet_env\<lparr>respond := \<lambda>ev w.
       case ev of Perform chord \<Rightarrow> (0, Inl WebDriverException) | _ \<Rightarrow> (0, Inr VNone)\<rparr>"

text \<open>Every script takes five seconds and returns \<^verbatim>\<open>None\<close>.\<close>

definition slow_empty_env :: env where
  "slow_empty_env =
     quiet_env\<lparr>respond := \<lambda>ev w.
       case ev of Script sc \<Rightarrow> (5000, Inr VNone) | _ \<Rightarrow> (0, Inr VNone)\<rparr>"

text \<open>Every script takes five seconds and raises \<^verbatim>\<open>WebDriverException\<close>.\<close>

definition slow_failing_env :: env where
  "slow_failing_env =
     quiet_env\<lparr>respond := \<lambda>ev w.
       case ev of Script sc \<Rightarrow> (5000, Inl WebDriverException) | _ \<Rightarrow> (0, Inr VNone)\<rparr>"

text \<open>
  The clipboard text \<^verbatim>\<open>{"success": false, "code": <code>, "msg": "<msg>"}\<close> and the
  dictionary that \<^verbatim>\<open>json.loads\<close> makes of it.
\<close>

definition quoted :: "string \<Rightarrow> string" where
  "quoted s = CHR 0x22 # s @ [CHR 0x22]"

definition error_payload :: "string \<Rightarrow> string \<Rightarrow> string" where
  "error_payload code msg =
     ''{'' @ quoted ''success'' @ '': false, '' @ quoted ''code'' @ '': '' @ code @ '', ''
     @ quoted ''msg'' @ '': '' @ quoted msg @ ''}''"

definition error_response :: "int \<Rightarrow> string \<Rightarrow> string \<Rightarrow> json option" where
  "error_response code msg =
     map_of [(''success'', JBool False), (''code'', JInt code), (''msg'', JStr msg)]"

text \<open>A browser whose text clipboard holds such a payload from the start.\<close>

definition error_env :: "string \<Rightarrow> int \<Rightarrow> string \<Rightarrow> env" where
  "error_env code_text code msg =
     quiet_env
       \<lparr>respond := \<lambda>ev w.
          case ev of
            Script ReadText \<Rightarrow> (0, Inr (VStr (error_payload code_text msg)))
          | _ \<Rightarrow> (0, Inr VNone),
        json_loads := \<lambda>text.
          if text = error_payload code_text msg then Some (Dict (error_response code msg))
          else None\<rparr>"

text \<open>
  The application shell is there at once, and every \<^verbatim>\<open>find_elements\<close> finds nothing after
  the implicit wait of one second.
\<close>

definition slow_dom_env :: env where
  "slow_dom_env =
     quiet_env\<lparr>respond := \<lambda>ev w.
       case ev of
         FindElement selector \<Rightarrow> (0, Inr VOther)
       | FindElements selector \<Rightarrow> (1000, Inr (VList 0))
       | _ \<Rightarrow> (0, Inr VNone)\<rparr>"




text \<open>
  The text clipboard is empty until the first alternative chord has been sent and holds an
  error payload from then on.
\<close>

definition alt_error_env :: "string \<Rightarrow> int \<Rightarrow> string \<Rightarrow> env" where
  "alt_error_env code_text code msg =
     quiet_env
       \<lparr>respond := \<lambda>ev w.
          case ev of
            Script ReadText \<Rightarrow>
              (0, Inr (if 0 < sends ''Ctrl+Alt+S'' w then VStr (error_payload code_text msg)
                       else VNone))
          | _ \<Rightarrow> (0, Inr VNone),
        json_loads := \<lambda>text.
          if text = error_payload code_text msg then Some (Dict (error_response code msg))
          else None\<rparr>"

text \<open>
  The application shell is there after a tenth of a second, and every \<^verbatim>\<open>find_elements\<close>
  raises the given exception after a tenth of a second.
\<close>

definition throwing_dom_env :: "exn \<Rightarrow> env" where
  "throwing_dom_env x =
     quiet_env\<lparr>respond := \<lambda>ev w.
       case ev of
         FindElement selector \<Rightarrow> (100, Inr VOther)
       | FindElements selector \<Rightarrow> (100, Inl x)
       | _ \<Rightarrow> (0, Inr VNone)\<rparr>"

text \<open>No credentials are configured and every interaction raises the given exception.\<close>

definition broken_env :: "exn \<Rightarrow> env" where
  "broken_env x = quiet_env\<lparr>respond := \<lambda>ev w. (0, Inl x)\<rparr>"
section \<open>Properties of the base64 data URL\<close>

lemma b64_alphabet_distinct: "distinct b64_alphabet"
  by (simp add: b64_alphabet_def)

lemma b64_alphabet_length: "length b64_alphabet = 64"
  by (simp add: b64_alphabet_def)

lemma b64_value_char: "unat v < 64 \<Longrightarrow> b64_value (b64_char v) = Some v"
  unfolding b64_value_def b64_char_def
  by (subst map_of_zip_nth) (simp_all add: b64_alphabet_distinct b64_alphabet_length)

lemma b64_char_not_pad: "unat v < 64 \<Longrightarrow> b64_char v \<noteq> CHR ''=''"
proof -
  assume "unat v < 64"
  then have "b64_char v \<in> set b64_alphabet"
    unfolding b64_char_def by (simp add: b64_alphabet_length)
  moreover have "CHR ''='' \<notin> set b64_alphabet" by (simp add: b64_alphabet_def)
  ultimately show ?thesis by auto
qed

lemma six_bits_bound: "take_bit 6 v = v \<Longrightarrow> unat (v::byte) < 64"
proof -
  assume h: "take_bit 6 v = v"
  have "unat (take_bit 6 v) = take_bit 6 (unat v)" by (simp add: unsigned_take_bit_eq)
  also have "\<dots> < 2 ^ 6" by (rule take_bit_nat_less_exp)
  finally show ?thesis using h by simp
qed

lemma bit_byte_bound: "bit (a::byte) n \<Longrightarrow> n < 8"
  using bit_imp_le_length [of a n] by simp

lemma Suc_Suc_diff2: "2 \<le> n \<Longrightarrow> Suc (Suc (n - 2)) = n"
  by simp

lemma sextet1_bound: "unat (sextet1 a) < 64"
  unfolding sextet1_def
  apply (rule six_bits_bound)
  apply (rule bit_word_eqI)
  apply (auto simp: bit_simps dest: bit_byte_bound)
  done

lemma sextet2_bound: "unat (sextet2 a b) < 64"
  unfolding sextet2_def
  apply (rule six_bits_bound)
  apply (rule bit_word_eqI)
  apply (auto simp: bit_simps dest: bit_byte_bound)
  done

lemma sextet3_bound: "unat (sextet3 b c) < 64"
  unfolding sextet3_def
  apply (rule six_bits_bound)
  apply (rule bit_word_eqI)
  apply (auto simp: bit_simps dest: bit_byte_bound)
  done

lemma sextet4_bound: "unat (sextet4 c) < 64"
  unfolding sextet4_def by (rule six_bits_bound) simp

lemma octet1_sextets: "octet1 (sextet1 a) (sextet2 a b) = a"
  unfolding octet1_def sextet1_def sextet2_def
  apply (rule bit_word_eqI)
  subgoal for n
    by (cases "2 \<le> n"; cases "4 \<le> n"; cases "6 \<le> n";
        auto simp: bit_simps Suc_Suc_diff2 dest: bit_byte_bound)
  done

lemma octet2_sextets: "octet2 (sextet2 a b) (sextet3 b c) = b"
  unfolding octet2_def sextet2_def sextet3_def
  apply (rule bit_word_eqI)
  subgoal for n
    by (cases "2 \<le> n"; cases "4 \<le> n"; cases "6 \<le> n";
        auto simp: bit_simps Suc_Suc_diff2 dest: bit_byte_bound)
  done

lemma octet3_sextets: "octet3 (sextet3 b c) (sextet4 c) = c"
  unfolding octet3_def sextet3_def sextet4_def
  apply (rule bit_word_eqI)
  subgoal for n
    by (cases "2 \<le> n"; cases "4 \<le> n"; cases "6 \<le> n";
        auto simp: bit_simps Suc_Suc_diff2 dest: bit_byte_bound)
  done

lemmas sextet_bounds = sextet1_bound sextet2_bound sextet3_bound sextet4_bound

lemmas octet_sextets = octet1_sextets octet2_sextets octet3_sextets

lemma b64decode_b64encode: "b64decode (b64encode bs) = Some bs"
proof (induction bs rule: b64encode.induct)
  case 1
  show ?case by simp
next
  case (2 a)
  show ?case
    by (simp add: b64_value_char sextet_bounds octet_sextets)
next
  case (3 a b)
  show ?case
    by (simp add: b64_value_char b64_char_not_pad sextet_bounds octet_sextets)
next
  case (4 a b c rest)
  then show ?case
    by (simp add: b64_value_char b64_char_not_pad sextet_bounds octet_sextets)
qed

text \<open>
  Claim C4: for every byte sequence (the non-empty ones among them),
  \<^verbatim>\<open>_convert_clipboard_to_image_url\<close> returns, without raising, a string that starts with
  \<^verbatim>\<open>data:image/png;base64,\<close> and whose rest decodes as base64 to exactly the bytes given.
\<close>

theorem convert_clipboard_to_image_url_roundtrip:
  "\<exists>payload. convert_clipboard_to_image_url image_data = Inr (''data:image/png;base64,'' @ payload)
     \<and> b64decode payload = Some image_data"
  by (simp add: convert_clipboard_to_image_url_def b64decode_b64encode)

section \<open>Properties of the link conversion\<close>

lemma first_match_None:
  "first_match f xs = None \<longleftrightarrow> (\<forall>x \<in> set xs. f x = None)"
  by (induction xs) (auto split: option.splits)

lemma takeWhile_all: "list_all P (takeWhile P xs)"
  by (induction xs) auto

lemma match_with_host_prefix:
  assumes m: "match_with_host host t = Some (url, match_id)" and p: "prefix url s"
  shows "match_with_host host s \<noteq> None"
proof -
  let ?pre = "link_prefix host"
  from m obtain rest slash where
    mid: "match_id = takeWhile is_alnum rest" "match_id \<noteq> []"
    and url: "url = ?pre @ match_id @ slash"
    by (auto dest!: match_with_host_Some)
  from p obtain r where "s = url @ r" by (auto simp: prefix_def)
  then have s: "s = ?pre @ (match_id @ slash @ r)" using url by simp
  then have sp: "strip_prefix ?pre s = Some (match_id @ slash @ r)"
    using strip_prefix_Some by blast
  obtain c cs where c: "match_id = c # cs" using mid(2) by (cases match_id) auto
  have "list_all is_alnum match_id"
    using takeWhile_all [of is_alnum rest] mid(1) by simp
  then have "is_alnum c" using c by simp
  then have "takeWhile is_alnum (match_id @ slash @ r) \<noteq> []" using c by simp
  then show ?thesis using sp
    unfolding match_with_host_def by (simp add: Let_def)
qed

lemma match_at_prefix:
  assumes m: "match_at t = Some (url, match_id)" and p: "prefix url s"
  shows "match_at s \<noteq> None"
proof -
  from m obtain host where h: "host \<in> set [''www.'', ''in.'', []]"
    and mh: "match_with_host host t = Some (url, match_id)"
    unfolding match_at_def by (blast dest: first_match_Some)
  have nn: "match_with_host host s \<noteq> None" using mh p by (rule match_with_host_prefix)
  show ?thesis
  proof
    assume "match_at s = None"
    then have "\<forall>x \<in> set [''www.'', ''in.'', []]. match_with_host x s = None"
      by (simp only: match_at_def first_match_None)
    from this h have "match_with_host host s = None" by (rule bspec)
    with nn show False by contradiction
  qed
qed

lemma match_at_url_prefix:
  "match_at s = Some (url, match_id) \<Longrightarrow> prefix url s"
  unfolding match_at_def
  by (drule first_match_Some) (auto dest!: match_with_host_Some simp: prefix_def)

lemma replace_nonempty_no_match:
  "finditer pos s = [] \<Longrightarrow> match_at t = Some (url, match_id) \<Longrightarrow>
     replace_nonempty url new s = s"
proof (induction pos s rule: finditer.induct)
  case (1 pos)
  show ?case by simp
next
  case (2 pos c cs)
  from "2.prems"(1) have none: "match_at (c # cs) = None"
    by (auto split: option.splits)
  then have "\<not> prefix url (c # cs)"
    using match_at_prefix [OF "2.prems"(2)] by blast
  moreover have "replace_nonempty url new cs = cs"
    using "2.IH"(1) [OF none] "2.prems" none by simp
  ultimately show ?case by simp
qed

lemma contains_no_match:
  "finditer pos s = [] \<Longrightarrow> match_at t = Some (url, match_id) \<Longrightarrow> \<not> contains url s"
proof (induction pos s rule: finditer.induct)
  case (1 pos)
  then show ?case by (auto dest: match_at_nonempty)
next
  case (2 pos c cs)
  from "2.prems"(1) have none: "match_at (c # cs) = None"
    by (auto split: option.splits)
  then have "\<not> prefix url (c # cs)"
    using match_at_prefix [OF "2.prems"(2)] by blast
  moreover have "\<not> contains url cs"
    using "2.IH"(1) [OF none] "2.prems" none by simp
  ultimately show ?case by simp
qed

lemma finditer_single:
  "finditer pos s = [(p, url, match_id)] \<Longrightarrow>
     pos \<le> p \<and> match_at (drop (p - pos) s) = Some (url, match_id)
     \<and> contains url s
     \<and> replace_nonempty url new s = take (p - pos) s @ new @ drop (p - pos + length url) s"
proof (induction pos s arbitrary: rule: finditer.induct)
  case (1 pos)
  then show ?case by simp
next
  case (2 pos c cs)
  show ?case
  proof (cases "match_at (c # cs)")
    case None
    then have f: "finditer (Suc pos) cs = [(p, url, match_id)]" using "2.prems" by simp
    note ih = "2.IH"(1) [OF None f]
    from ih have le: "Suc pos \<le> p" by simp
    then have d: "p - pos = Suc (p - Suc pos)" by simp
    from ih have m: "match_at (drop (p - Suc pos) cs) = Some (url, match_id)" by simp
    have np: "\<not> prefix url (c # cs)"
      using match_at_prefix [OF m] None by blast
    show ?thesis using ih le np by (simp add: d)
  next
    case (Some um)
    obtain u m where um: "um = (u, m)" by (cases um)
    from "2.prems" Some um have eq: "p = pos" "u = url" "m = match_id"
      and rest: "finditer (pos + length url) (drop (length url) (c # cs)) = []"
      by auto
    have m: "match_at (c # cs) = Some (url, match_id)" using Some um eq by simp
    have pre: "prefix url (c # cs)" using m by (rule match_at_url_prefix)
    have ne: "url \<noteq> []" using m by (rule match_at_nonempty)
    have "replace_nonempty url new (drop (length url) (c # cs)) = drop (length url) (c # cs)"
      using rest m by (rule replace_nonempty_no_match)
    then show ?thesis using eq m pre ne by simp
  qed
qed


lemma match_at_Some:
  "match_at s = Some (url, match_id) \<Longrightarrow>
     match_id \<noteq> [] \<and> list_all is_alnum match_id
     \<and> (\<exists>host \<in> set [''www.'', ''in.'', []]. \<exists>slash \<in> set [''/'', []].
           url = link_prefix host @ match_id @ slash)"
proof -
  assume m: "match_at s = Some (url, match_id)"
  then obtain host where h: "host \<in> set [''www.'', ''in.'', []]"
    and mh: "match_with_host host s = Some (url, match_id)"
    unfolding match_at_def by (blast dest: first_match_Some)
  from mh obtain rest slash where
    mid: "match_id = takeWhile is_alnum rest" "match_id \<noteq> []"
    and sl: "slash = ''/'' \<or> slash = []"
    and url: "url = link_prefix host @ match_id @ slash"
    by (auto dest!: match_with_host_Some)
  have "list_all is_alnum match_id" using takeWhile_all [of is_alnum rest] mid(1) by simp
  moreover have "slash \<in> set [''/'', []]" using sl by auto
  ultimately show ?thesis using mid(2) h url by blast
qed

lemma match_at_share_link:
  assumes m: "match_at t = Some (url, match_id)"
  shows "\<exists>u. prefix u t \<and> share_link u"
proof -
  from m obtain host where h: "host \<in> set [''www.'', ''in.'', []]"
    and mh: "match_with_host host t = Some (url, match_id)"
    unfolding match_at_def by (blast dest: first_match_Some)
  let ?pre = "link_prefix host"
  from mh obtain rest slash where
    t: "t = ?pre @ rest"
    and mid: "match_id = takeWhile is_alnum rest" "match_id \<noteq> []"
    and pr: "prefix (match_id @ slash) rest"
    by (auto dest!: match_with_host_Some)
  have al: "list_all is_alnum match_id" using takeWhile_all [of is_alnum rest] mid(1) by simp
  have "strip_prefix ?pre (?pre @ match_id) = Some match_id"
    using strip_prefix_Some by blast
  then have "share_link (?pre @ match_id)"
    unfolding share_link_def using h mid(2) al by (intro bexI [of _ host]) simp_all
  moreover have "prefix (?pre @ match_id) t"
    using pr t by (auto simp: prefix_def)
  ultimately show ?thesis by blast
qed

lemma no_share_link_match_at:
  "\<not> has_share_link s \<Longrightarrow> suffix t s \<Longrightarrow> match_at t = None"
proof (rule ccontr)
  assume n: "\<not> has_share_link s" and suf: "suffix t s" and "match_at t \<noteq> None"
  then obtain url match_id where "match_at t = Some (url, match_id)" by auto
  then obtain u where "prefix u t" "share_link u" using match_at_share_link by blast
  then have "has_share_link s"
    unfolding has_share_link_def using suf
    by (intro bexI [of _ t] bexI [of _ u]) simp_all
  with n show False by contradiction
qed

lemma finditer_no_match:
  "(\<And>t. suffix t s \<Longrightarrow> match_at t = None) \<Longrightarrow> finditer pos s = []"
proof (induction pos s rule: finditer.induct)
  case (1 pos)
  show ?case by simp
next
  case (2 pos c cs)
  have none: "match_at (c # cs) = None" using "2.prems" by simp
  have "finditer (Suc pos) cs = []"
  proof (rule "2.IH"(1) [OF none])
    fix t assume "suffix t cs"
    then have "suffix t (c # cs)" by (rule suffix_ConsI)
    then show "match_at t = None" by (rule "2.prems")
  qed
  then show ?case using none by simp
qed

text \<open>
  Claim C5, amended: for every non-empty string without a share link,
  \<^verbatim>\<open>convert_link_to_image_url\<close> returns the string unchanged and raises nothing; this
  covers the strings that contain \<^verbatim>\<open>tradingview.com/x/\<close> without a full match.
\<close>

theorem convert_no_share_link:
  "s \<noteq> [] \<Longrightarrow> \<not> has_share_link s \<Longrightarrow> convert_link_to_image_url (Some s) = Inr (Some s)"
proof -
  assume ne: "s \<noteq> []" and n: "\<not> has_share_link s"
  have "finditer 0 s = []"
    by (rule finditer_no_match) (rule no_share_link_match_at [OF n])
  then show ?thesis using ne by (simp add: convert_link_to_image_url_def)
qed

theorem convert_no_share_link_witness:
  "''tradingview.com/x/'' \<noteq> [] \<and> \<not> has_share_link ''tradingview.com/x/''
   \<and> convert_link_to_image_url (Some ''tradingview.com/x/'') = Inr (Some ''tradingview.com/x/'')"
proof -
  have a: "''tradingview.com/x/'' \<noteq> []" by simp
  have b: "\<not> has_share_link ''tradingview.com/x/''"
    by code_simp
  show ?thesis using a b convert_no_share_link [OF a b] by blast
qed

text \<open>
  The claim as stated fails at the empty string, which has no share link and for which the
  function returns \<^verbatim>\<open>None\<close>.
\<close>

theorem convert_empty_string_counterexample:
  "\<not> has_share_link [] \<and> convert_link_to_image_url (Some []) = Inr None
   \<and> convert_link_to_image_url (Some []) \<noteq> Inr (Some [])"
  by code_simp

text \<open>
  Claim C1, amended: when the pattern has exactly one match in the input, at position \<open>p\<close>
  with matched text \<open>url\<close> and identifier \<open>match_id\<close>, the matched text is a share link
  with at most one slash after the identifier, and the result is the input with the
  matched text, that slash included, replaced by the snapshot URL of the identifier; the
  text before and after the match is unchanged.
\<close>

theorem convert_single_link:
  assumes f: "finditer 0 s = [(p, url, match_id)]"
  shows "match_id \<noteq> [] \<and> list_all is_alnum match_id
     \<and> (\<exists>host \<in> set [''www.'', ''in.'', []]. \<exists>slash \<in> set [''/'', []].
           url = link_prefix host @ match_id @ slash)
     \<and> s = take p s @ url @ drop (p + length url) s
     \<and> convert_link_to_image_url (Some s) =
         Inr (Some (take p s @ ''https://s3.tradingview.com/snapshots/'' @ [lower (hd match_id)]
                    @ ''/'' @ match_id @ ''.png'' @ drop (p + length url) s))"
proof -
  let ?new = "''https://s3.tradingview.com/snapshots/'' @ [lower (hd match_id)] @ ''/''
              @ match_id @ ''.png''"
  note fs = finditer_single [OF f, of ?new]
  from fs have m: "match_at (drop p s) = Some (url, match_id)" by simp
  note ms = match_at_Some [OF m]
  from ms have ne: "match_id \<noteq> []" by simp
  have "prefix url (drop p s)" using m by (rule match_at_url_prefix)
  then obtain zs where z: "drop p s = url @ zs" by (auto simp: prefix_def)
  have "drop (p + length url) s = drop (length url) (drop p s)" by (simp add: add.commute)
  also have "\<dots> = zs" using z by simp
  finally have "drop p s = url @ drop (p + length url) s" using z by simp
  then have dec: "s = take p s @ url @ drop (p + length url) s"
    by (metis append_take_drop_id)
  have urlne: "url \<noteq> []" using m by (rule match_at_nonempty)
  have sne: "s \<noteq> []" using f by auto
  have nl: "new_link match_id = Inr ?new"
    using ne by (cases match_id) (simp_all add: new_link_def)
  have "convert_link_to_image_url (Some s) =
          Inr (Some (take p s @ ?new @ drop (p + length url) s))"
    using f fs nl sne urlne
    by (simp add: convert_link_to_image_url_def str_replace_def)
  then show ?thesis using ms dec by simp
qed

theorem convert_single_link_witness:
  "finditer 0 ''see https://www.tradingview.com/x/QWer7890 please''
     = [(4, ''https://www.tradingview.com/x/QWer7890'', ''QWer7890'')]
   \<and> convert_link_to_image_url (Some ''see https://www.tradingview.com/x/QWer7890 please'')
     = Inr (Some ''see https://s3.tradingview.com/snapshots/q/QWer7890.png please'')"
proof -
  have f: "finditer 0 ''see https://www.tradingview.com/x/QWer7890 please''
     = [(4, ''https://www.tradingview.com/x/QWer7890'', ''QWer7890'')]"
    by code_simp
  have c: "convert_link_to_image_url (Some ''see https://www.tradingview.com/x/QWer7890 please'')
     = Inr (Some ''see https://s3.tradingview.com/snapshots/q/QWer7890.png please'')"
    using convert_single_link [OF f] by (simp add: lower_def)
  show ?thesis by (rule conjI [OF f c])
qed

text \<open>
  The claim as stated fails when a slash follows the share link: the slash belongs to the
  surrounding text of the link, and the conversion removes it.
\<close>

theorem convert_trailing_slash_counterexample:
  "finditer 0 ''https://www.tradingview.com/x/abc/''
     = [(0, ''https://www.tradingview.com/x/abc/'', ''abc'')]
   \<and> convert_link_to_image_url (Some ''https://www.tradingview.com/x/abc/'')
     = Inr (Some ''https://s3.tradingview.com/snapshots/a/abc.png'')
   \<and> convert_link_to_image_url (Some (''https://www.tradingview.com/x/abc'' @ ''/''))
     \<noteq> Inr (Some (''https://s3.tradingview.com/snapshots/a/abc.png'' @ ''/''))"
  by code_simp

section \<open>Properties of session release and of request validation\<close>

lemma close_never_raises: "\<exists>s' w'. close e s w = (Inr s', w')"
  by (simp add: close_def Let_def split: option.splits raised.splits)

lemma close_marks_released:
  "close e s w = (Inr s', w') \<Longrightarrow>
     (\<forall>x. quit_raises e w = Some (Exc x) \<longrightarrow> \<not> is_WebDriverException x) \<Longrightarrow> \<not> driver s'"
  by (auto simp: close_def Let_def split: option.splits raised.splits if_splits)

text \<open>
  Claim C6, at the input where it fails: \<^verbatim>\<open>driver.quit()\<close> raises
  \<^verbatim>\<open>WebDriverException\<close>. The first handler logs the failure and leaves \<^verbatim>\<open>self.driver\<close>
  set, unlike the two handlers after it, so the session is not marked released and a
  second \<^verbatim>\<open>close\<close> calls \<^verbatim>\<open>driver.quit()\<close> again.
\<close>

theorem close_WebDriverException_keeps_driver:
  "close (quiet_env\<lparr>quit_raises := \<lambda>w. Some (Exc WebDriverException)\<rparr>) (live_scraper True) fresh
     = (Inr (live_scraper True), \<lparr>clock = 0, trace = [Quit]\<rparr>)
   \<and> close_twice (quiet_env\<lparr>quit_raises := \<lambda>w. Some (Exc WebDriverException)\<rparr>)
        (live_scraper True) fresh
     = (Inr (live_scraper True), \<lparr>clock = 0, trace = [Quit, Quit]\<rparr>)"
  by (simp add: close_twice_def close_def quiet_env_def live_scraper_def fresh_def)

lemma setup_driver_sets_driver:
  "setup_driver e s w = (Inr u, s1, w1) \<Longrightarrow> driver s1"
  by (auto simp: setup_driver_def split: prod.splits sum.splits)

text \<open>
  Claim C7, amended: for a request with an empty ticker or an empty interval, the capture
  operations of a scraper whose driver is set raise \<^verbatim>\<open>ValueError\<close> before any interaction
  with the browser; the tool of \<^verbatim>\<open>main.py\<close> has acquired the session by then, releases it
  and reports an input error.
\<close>

theorem empty_request_rejected:
  assumes empty: "ticker = [] \<or> interval = []"
  shows "(driver s \<longrightarrow>
            get_screenshot_link e s ticker interval w = (Inl ValueError, w)
            \<and> get_chart_image_url e s ticker interval w = (Inl ValueError, w))
       \<and> (\<forall>s1 w1.
            setup_driver e
              \<lparr>driver = False, use_save_shortcut = True, chart_page_id = CHART_PAGE_ID e\<rparr> w
              = (Inr (), s1, w1) \<longrightarrow>
            (\<exists>w2. get_tradingview_chart_image e ticker interval w = (Inl InputFailure, w2)
                  \<and> trace w2 = trace w1 @ [Quit]))"
proof (intro conjI impI allI)
  assume "driver s"
  then show "get_screenshot_link e s ticker interval w = (Inl ValueError, w)"
    using empty by (auto simp: get_screenshot_link_def)
next
  assume "driver s"
  then show "get_chart_image_url e s ticker interval w = (Inl ValueError, w)"
    using empty by (auto simp: get_chart_image_url_def)
next
  fix s1 w1
  assume start: "setup_driver e
      \<lparr>driver = False, use_save_shortcut = True, chart_page_id = CHART_PAGE_ID e\<rparr> w
      = (Inr (), s1, w1)"
  then have d: "driver s1" by (rule setup_driver_sets_driver)
  then have body: "tool_body e s1 ticker interval w1 = (Inl ValueError, w1)"
    using empty by (auto simp: tool_body_def get_screenshot_link_def and_then_def)
  obtain s2 w2 where c: "close e s1 w1 = (Inr s2, w2)"
    using close_never_raises by blast
  then have t: "trace w2 = trace w1 @ [Quit]"
    using d by (auto simp: close_def Let_def split: option.splits raised.splits if_splits)
  have "get_tradingview_chart_image e ticker interval w = (Inl InputFailure, w2)"
    using start body c by (simp add: get_tradingview_chart_image_def tool_failure_of_def)
  with t show "\<exists>w2. get_tradingview_chart_image e ticker interval w = (Inl InputFailure, w2)
                  \<and> trace w2 = trace w1 @ [Quit]"
    by blast
qed

theorem empty_request_rejected_witness:
  "([] = ([]::string) \<or> ''15'' = [])
   \<and> driver (live_scraper True)
   \<and> get_screenshot_link quiet_env (live_scraper True) [] ''15'' fresh = (Inl ValueError, fresh)
   \<and> get_chart_image_url quiet_env (live_scraper True) [] ''15'' fresh = (Inl ValueError, fresh)
   \<and> setup_driver quiet_env
        \<lparr>driver = False, use_save_shortcut = True, chart_page_id = CHART_PAGE_ID quiet_env\<rparr> fresh
      = (Inr (), live_scraper True, \<lparr>clock = 0, trace = [InstallDriver, Launch, Configure]\<rparr>)
   \<and> (\<exists>w2. get_tradingview_chart_image quiet_env [] ''15'' fresh = (Inl InputFailure, w2)
          \<and> trace w2 = [InstallDriver, Launch, Configure] @ [Quit])"
proof -
  have h: "[] = ([]::string) \<or> ''15'' = []" by simp
  have d: "driver (live_scraper True)" by (simp add: live_scraper_def)
  have su: "setup_driver quiet_env
        \<lparr>driver = False, use_save_shortcut = True, chart_page_id = CHART_PAGE_ID quiet_env\<rparr> fresh
      = (Inr (), live_scraper True, \<lparr>clock = 0, trace = [InstallDriver, Launch, Configure]\<rparr>)"
    by (simp add: setup_driver_def get_chromedriver_path_def driver_call_def quiet_env_def
        fresh_def live_scraper_def CHART_PAGE_ID_def)
  note t = empty_request_rejected [OF h, of "live_scraper True" quiet_env fresh]
  from t d have a: "get_screenshot_link quiet_env (live_scraper True) [] ''15'' fresh
      = (Inl ValueError, fresh)"
    and b: "get_chart_image_url quiet_env (live_scraper True) [] ''15'' fresh
      = (Inl ValueError, fresh)"
    by blast+
  from t su have c: "\<exists>w2. get_tradingview_chart_image quiet_env [] ''15'' fresh
      = (Inl InputFailure, w2)
      \<and> trace w2 = trace \<lparr>clock = 0, trace = [InstallDriver, Launch, Configure]\<rparr> @ [Quit]"
    by blast
  then have c': "\<exists>w2. get_tradingview_chart_image quiet_env [] ''15'' fresh
      = (Inl InputFailure, w2) \<and> trace w2 = [InstallDriver, Launch, Configure] @ [Quit]"
    by simp
  show ?thesis using h d a b su c' by blast
qed

text \<open>
  The claim as stated fails for the tool of \<^verbatim>\<open>main.py\<close>: with an empty ticker the browser
  is installed, launched and configured before the request is rejected. It also fails for
  \<^verbatim>\<open>get_screenshot_link\<close> on a scraper without a driver, which raises
  \<^verbatim>\<open>TradingViewScraperError\<close> and not \<^verbatim>\<open>ValueError\<close>.
\<close>

theorem empty_request_session_acquired_counterexample:
  "get_tradingview_chart_image quiet_env [] ''15'' fresh
     = (Inl InputFailure, \<lparr>clock = 0, trace = [InstallDriver, Launch, Configure, Quit]\<rparr>)
   \<and> get_screenshot_link quiet_env ((live_scraper True)\<lparr>driver := False\<rparr>) [] ''15'' fresh
     = (Inl TradingViewScraperError, fresh)"
  by (simp add: get_tradingview_chart_image_def setup_driver_def get_chromedriver_path_def
      driver_call_def quiet_env_def fresh_def CHART_PAGE_ID_def tool_body_def
      get_screenshot_link_def and_then_def close_def tool_failure_of_def live_scraper_def)

text \<open>
  Claim C10: on a scraper whose driver is set and for a non-empty ticker and interval,
  \<^verbatim>\<open>get_chart_image_url\<close> raises nothing, in every environment: whatever exception the
  authentication, the navigation, the clearing of the clipboard or the clipboard capture
  raises, \<^verbatim>\<open>TradingViewScraperError\<close> or any other, the caller gets \<^verbatim>\<open>None\<close>, in the world
  in which the exception was raised; when no step raises, the caller gets the content that
  the capture returned.
\<close>

theorem get_chart_image_url_never_raises:
  assumes "driver s" and "ticker \<noteq> []" and "interval \<noteq> []"
  shows
    "(\<exists>image_url w'. get_chart_image_url e s ticker interval w = (Inr image_url, w'))
     \<and> (\<forall>x w1.
          set_auth_cookies_optimized e s (chart_url s ticker interval) w = (Inl x, w1) \<longrightarrow>
          get_chart_image_url e s ticker interval w = (Inr None, w1))
     \<and> (\<forall>authenticated w1 x w2.
          set_auth_cookies_optimized e s (chart_url s ticker interval) w = (Inr authenticated, w1)
          \<and> navigate_and_wait e s (chart_url s ticker interval) w1 = (Inl x, w2) \<longrightarrow>
          get_chart_image_url e s ticker interval w = (Inr None, w2))
     \<and> (\<forall>authenticated w1 w2 x w3.
          set_auth_cookies_optimized e s (chart_url s ticker interval) w = (Inr authenticated, w1)
          \<and> navigate_and_wait e s (chart_url s ticker interval) w1 = (Inr (), w2)
          \<and> clear_clipboard e w2 = (Inl x, w3) \<longrightarrow>
          get_chart_image_url e s ticker interval w = (Inr None, w3))
     \<and> (\<forall>authenticated w1 w2 w3 x w4.
          set_auth_cookies_optimized e s (chart_url s ticker interval) w = (Inr authenticated, w1)
          \<and> navigate_and_wait e s (chart_url s ticker interval) w1 = (Inr (), w2)
          \<and> clear_clipboard e w2 = (Inr (), w3)
          \<and> get_clipboard_content e s w3 = (Inl x, w4) \<longrightarrow>
          get_chart_image_url e s ticker interval w = (Inr None, w4))
     \<and> (\<forall>authenticated w1 w2 w3 content w4.
          set_auth_cookies_optimized e s (chart_url s ticker interval) w = (Inr authenticated, w1)
          \<and> navigate_and_wait e s (chart_url s ticker interval) w1 = (Inr (), w2)
          \<and> clear_clipboard e w2 = (Inr (), w3)
          \<and> get_clipboard_content e s w3 = (Inr content, w4) \<longrightarrow>
          get_chart_image_url e s ticker interval w = (Inr (Some content), w4))"
  using assms
  by (intro conjI allI impI)
     (auto simp: get_chart_image_url_def and_then_def split: prod.splits sum.splits)

lemma broken_env_navigation:
  "set_auth_cookies_optimized (broken_env x) (live_scraper True)
     (chart_url (live_scraper True) ''NASDAQ:AAPL'' ''15'') fresh = (Inr False, fresh)"
  "navigate_and_wait (broken_env x) (live_scraper True)
     (chart_url (live_scraper True) ''NASDAQ:AAPL'' ''15'') fresh
     = (Inl (if is_WebDriverException x then TradingViewScraperError else x),
        \<lparr>clock = 0, trace = [Navigate (chart_url (live_scraper True) ''NASDAQ:AAPL'' ''15'')]\<rparr>)"
  by (simp_all add: set_auth_cookies_optimized_def navigate_and_wait_def and_then_def
      driver_call_def broken_env_def quiet_env_def live_scraper_def fresh_def)

theorem get_chart_image_url_never_raises_witness:
  "driver (live_scraper True) \<and> ''NASDAQ:AAPL'' \<noteq> [] \<and> ''15'' \<noteq> []
   \<and> set_auth_cookies_optimized (broken_env WebDriverException) (live_scraper True)
       (chart_url (live_scraper True) ''NASDAQ:AAPL'' ''15'') fresh = (Inr False, fresh)
   \<and> navigate_and_wait (broken_env WebDriverException) (live_scraper True)
       (chart_url (live_scraper True) ''NASDAQ:AAPL'' ''15'') fresh
       = (Inl TradingViewScraperError,
          \<lparr>clock = 0,
           trace = [Navigate (chart_url (live_scraper True) ''NASDAQ:AAPL'' ''15'')]\<rparr>)
   \<and> get_chart_image_url (broken_env WebDriverException) (live_scraper True)
       ''NASDAQ:AAPL'' ''15'' fresh
       = (Inr None,
          \<lparr>clock = 0,
           trace = [Navigate (chart_url (live_scraper True) ''NASDAQ:AAPL'' ''15'')]\<rparr>)
   \<and> navigate_and_wait (broken_env OSError) (live_scraper True)
       (chart_url (live_scraper True) ''NASDAQ:AAPL'' ''15'') fresh
       = (Inl OSError,
          \<lparr>clock = 0,
           trace = [Navigate (chart_url (live_scraper True) ''NASDAQ:AAPL'' ''15'')]\<rparr>)
   \<and> get_chart_image_url (broken_env OSError) (live_scraper True) ''NASDAQ:AAPL'' ''15'' fresh
       = (Inr None,
          \<lparr>clock = 0,
           trace = [Navigate (chart_url (live_scraper True) ''NASDAQ:AAPL'' ''15'')]\<rparr>)"
proof -
  have a: "driver (live_scraper True)" by (simp add: live_scraper_def)
  have b: "''NASDAQ:AAPL'' \<noteq> []" by simp
  have c: "''15'' \<noteq> []" by simp
  have n1: "navigate_and_wait (broken_env WebDriverException) (live_scraper True)
       (chart_url (live_scraper True) ''NASDAQ:AAPL'' ''15'') fresh
       = (Inl TradingViewScraperError,
          \<lparr>clock = 0,
           trace = [Navigate (chart_url (live_scraper True) ''NASDAQ:AAPL'' ''15'')]\<rparr>)"
    using broken_env_navigation(2) [of WebDriverException] by simp
  have n2: "navigate_and_wait (broken_env OSError) (live_scraper True)
       (chart_url (live_scraper True) ''NASDAQ:AAPL'' ''15'') fresh
       = (Inl OSError,
          \<lparr>clock = 0,
           trace = [Navigate (chart_url (live_scraper True) ''NASDAQ:AAPL'' ''15'')]\<rparr>)"
    using broken_env_navigation(2) [of OSError] by simp
  note auth = broken_env_navigation(1)
  have r1: "get_chart_image_url (broken_env WebDriverException) (live_scraper True)
       ''NASDAQ:AAPL'' ''15'' fresh
       = (Inr None,
          \<lparr>clock = 0,
           trace = [Navigate (chart_url (live_scraper True) ''NASDAQ:AAPL'' ''15'')]\<rparr>)"
    by (rule get_chart_image_url_never_raises
          [OF a b c, THEN conjunct2, THEN conjunct2, THEN conjunct1, rule_format,
           OF conjI [OF auth n1]])
  have r2: "get_chart_image_url (broken_env OSError) (live_scraper True)
       ''NASDAQ:AAPL'' ''15'' fresh
       = (Inr None,
          \<lparr>clock = 0,
           trace = [Navigate (chart_url (live_scraper True) ''NASDAQ:AAPL'' ''15'')]\<rparr>)"
    by (rule get_chart_image_url_never_raises
          [OF a b c, THEN conjunct2, THEN conjunct2, THEN conjunct1, rule_format,
           OF conjI [OF auth n2]])
  show ?thesis
    by (intro conjI) (rule a b c auth n1 r1 n2 r2)+
qed
section \<open>Properties of the retry loop of the share link\<close>

lemma driver_call_eq:
  "driver_call e ev w =
     (snd (respond e ev w), \<lparr>clock = clock w + fst (respond e ev w), trace = trace w @ [ev]\<rparr>)"
  by (simp add: driver_call_def split: prod.splits)

lemma blank_stripped_text: "blank v \<Longrightarrow> stripped_text v = None"
  by (cases v) auto

lemma blank_nonblank_text: "blank v \<Longrightarrow> nonblank_text v = Inr None"
  by (cases v) auto

lemma link_poll_nothing:
  assumes "\<forall>w. yields_nothing (snd (respond e (Script ReadText) w))"
  shows "\<exists>w'. link_poll e start w = (Inr None, w')"
  using assms
proof (induction e start w rule: link_poll.induct)
  case (1 e start w)
  note empty = "1.prems"
  show ?case
  proof (cases "clock w - start < 5000")
    case False
    then show ?thesis by (subst link_poll.simps) simp
  next
    case True
    obtain r w1 where c: "driver_call e (Script ReadText) w = (r, w1)"
      by (cases "driver_call e (Script ReadText) w")
    then have r: "r = snd (respond e (Script ReadText) w)" by (simp add: driver_call_eq)
    have y: "yields_nothing r" unfolding r using empty by (rule spec)
    show ?thesis
    proof (cases r)
      case (Inl x)
      then have wd: "is_WebDriverException x" using y by (simp add: yields_nothing_def)
      have "\<exists>w'. link_poll e start (sleep 200 w1) = (Inr None, w')"
        using "1.IH"(1) [OF True c [symmetric] Inl wd] empty by blast
      then show ?thesis using True c Inl wd by (subst link_poll.simps) simp
    next
      case (Inr v)
      then have st: "stripped_text v = None"
        using y by (simp add: yields_nothing_def blank_stripped_text)
      have "\<exists>w'. link_poll e start (sleep 200 w1) = (Inr None, w')"
        using "1.IH"(2) [OF True c [symmetric] Inr st] empty by blast
      then show ?thesis using True c Inr st by (subst link_poll.simps) simp
    qed
  qed
qed

lemma read_text_or_none_nothing:
  assumes "yields_nothing (snd (respond e (Script ReadText) w))"
  shows "\<exists>v w'. read_text_or_none e w = (Inr v, w') \<and> stripped_text v = None"
proof (cases "snd (respond e (Script ReadText) w)")
  case (Inl x)
  then show ?thesis
    using assms by (simp add: read_text_or_none_def driver_call_eq yields_nothing_def)
next
  case (Inr v)
  then show ?thesis
    using assms
    by (simp add: read_text_or_none_def driver_call_eq yields_nothing_def blank_stripped_text)
qed

lemma link_attempt_nothing:
  assumes reads: "\<forall>w. yields_nothing (snd (respond e (Script ReadText) w))"
    and keys: "snd (respond e (Perform ''Alt+S'') w) = Inr v"
  shows "\<exists>w'. link_attempt e w = (Inr None, w')"
proof -
  obtain w1 where a: "driver_call e (Perform ''Alt+S'') w = (Inr v, w1)"
    using keys by (simp add: driver_call_eq)
  obtain w2 where b: "link_poll e (clock w1) w1 = (Inr None, w2)"
    using link_poll_nothing [OF reads] by blast
  obtain v3 w3 where c: "read_text_or_none e w2 = (Inr v3, w3)" "stripped_text v3 = None"
    using read_text_or_none_nothing reads by blast
  show ?thesis using a b c by (simp add: link_attempt_def and_then_def)
qed

text \<open>
  Claim C9, amended: in the retry loop of \<^verbatim>\<open>_trigger_screenshot_and_get_link\<close>, a
  \<^verbatim>\<open>WebDriverException\<close> while the key chord is sent ends the loop at once with
  \<^verbatim>\<open>None\<close>; an attempt that finds the clipboard empty is followed by the next attempt, which
  starts with the key chord again, after a delay of \<^verbatim>\<open>CLIPBOARD_RETRY_INTERVAL\<close> (no delay
  after the last attempt); and a \<^verbatim>\<open>WebDriverException\<close> of a clipboard read does not end the
  loop: it is swallowed, and an attempt whose reads all fail or yield nothing counts as
  empty.
\<close>

theorem link_retry_policy:
  assumes "attempt < MAX_CLIPBOARD_ATTEMPTS"
  shows "(\<forall>x w1. driver_call e (Perform ''Alt+S'') w = (Inl x, w1) \<longrightarrow> is_WebDriverException x \<longrightarrow>
            link_attempts e attempt w = (Inr None, w1))
       \<and> (\<forall>w'. link_attempt e w = (Inr None, w') \<longrightarrow>
            link_attempts e attempt w =
              link_attempts e (Suc attempt)
                (if attempt < MAX_CLIPBOARD_ATTEMPTS - 1 then sleep CLIPBOARD_RETRY_INTERVAL w'
                 else w'))
       \<and> ((\<forall>w. yields_nothing (snd (respond e (Script ReadText) w))) \<longrightarrow>
            (\<exists>v. snd (respond e (Perform ''Alt+S'') w) = Inr v) \<longrightarrow>
            (\<exists>w'. link_attempt e w = (Inr None, w')))"
proof (intro conjI allI impI)
  fix x w1
  assume "driver_call e (Perform ''Alt+S'') w = (Inl x, w1)" and "is_WebDriverException x"
  then show "link_attempts e attempt w = (Inr None, w1)"
    using assms by (subst link_attempts.simps) (simp add: link_attempt_def and_then_def)
next
  fix w'
  assume "link_attempt e w = (Inr None, w')"
  then show "link_attempts e attempt w =
      link_attempts e (Suc attempt)
        (if attempt < MAX_CLIPBOARD_ATTEMPTS - 1 then sleep CLIPBOARD_RETRY_INTERVAL w' else w')"
    using assms by (subst link_attempts.simps) simp
next
  assume "\<forall>w. yields_nothing (snd (respond e (Script ReadText) w))"
    and "\<exists>v. snd (respond e (Perform ''Alt+S'') w) = Inr v"
  then show "\<exists>w'. link_attempt e w = (Inr None, w')"
    using link_attempt_nothing by blast
qed

lemma link_attempt_slow_empty:
  "link_attempt slow_empty_env fresh
     = (Inr None, \<lparr>clock = 10200, trace = [Perform ''Alt+S'', Script ReadText, Script ReadText]\<rparr>)"
  by code_simp

theorem link_retry_policy_witness:
  "0 < MAX_CLIPBOARD_ATTEMPTS
   \<and> driver_call keys_fail_env (Perform ''Alt+S'') fresh
       = (Inl WebDriverException, \<lparr>clock = 0, trace = [Perform ''Alt+S'']\<rparr>)
   \<and> is_WebDriverException WebDriverException
   \<and> link_attempts keys_fail_env 0 fresh = (Inr None, \<lparr>clock = 0, trace = [Perform ''Alt+S'']\<rparr>)
   \<and> link_attempt slow_empty_env fresh
       = (Inr None, \<lparr>clock = 10200, trace = [Perform ''Alt+S'', Script ReadText, Script ReadText]\<rparr>)
   \<and> link_attempts slow_empty_env 0 fresh
       = link_attempts slow_empty_env (Suc 0)
           \<lparr>clock = 11200, trace = [Perform ''Alt+S'', Script ReadText, Script ReadText]\<rparr>
   \<and> (\<forall>w. yields_nothing (snd (respond slow_failing_env (Script ReadText) w)))
   \<and> (\<exists>v. snd (respond slow_failing_env (Perform ''Alt+S'') fresh) = Inr v)
   \<and> (\<exists>w'. link_attempt slow_failing_env fresh = (Inr None, w'))"
proof -
  have h: "0 < MAX_CLIPBOARD_ATTEMPTS" by (simp add: MAX_CLIPBOARD_ATTEMPTS_def)
  have a1: "driver_call keys_fail_env (Perform ''Alt+S'') fresh
       = (Inl WebDriverException, \<lparr>clock = 0, trace = [Perform ''Alt+S'']\<rparr>)"
    by (simp add: driver_call_eq keys_fail_env_def quiet_env_def fresh_def)
  have a2: "is_WebDriverException WebDriverException" by simp
  have a3: "link_attempts keys_fail_env 0 fresh
       = (Inr None, \<lparr>clock = 0, trace = [Perform ''Alt+S'']\<rparr>)"
    using link_retry_policy [OF h, of keys_fail_env fresh] a1 a2 by blast
  note b1 = link_attempt_slow_empty
  have "link_attempts slow_empty_env 0 fresh
       = link_attempts slow_empty_env (Suc 0)
          (if 0 < MAX_CLIPBOARD_ATTEMPTS - 1
           then sleep CLIPBOARD_RETRY_INTERVAL
                 \<lparr>clock = 10200, trace = [Perform ''Alt+S'', Script ReadText, Script ReadText]\<rparr>
           else \<lparr>clock = 10200, trace = [Perform ''Alt+S'', Script ReadText, Script ReadText]\<rparr>)"
    using link_retry_policy [OF h, of slow_empty_env fresh] b1 by blast
  then have b2: "link_attempts slow_empty_env 0 fresh
       = link_attempts slow_empty_env (Suc 0)
           \<lparr>clock = 11200, trace = [Perform ''Alt+S'', Script ReadText, Script ReadText]\<rparr>"
    by (simp add: MAX_CLIPBOARD_ATTEMPTS_def CLIPBOARD_RETRY_INTERVAL_def sleep_def)
  have c1: "\<forall>w. yields_nothing (snd (respond slow_failing_env (Script ReadText) w))"
    by (simp add: slow_failing_env_def quiet_env_def yields_nothing_def)
  have c2: "\<exists>v. snd (respond slow_failing_env (Perform ''Alt+S'') fresh) = Inr v"
    by (simp add: slow_failing_env_def quiet_env_def)
  have c3: "\<exists>w'. link_attempt slow_failing_env fresh = (Inr None, w')"
    using link_retry_policy [OF h, of slow_failing_env fresh] c1 c2 by blast
  show ?thesis using h a1 a2 a3 b1 b2 c1 c2 c3 by blast
qed

lemma link_poll_slow_failing:
  "link_poll slow_failing_env (clock w) w
     = (Inr None, \<lparr>clock = clock w + 5200, trace = trace w @ [Script ReadText]\<rparr>)"
  apply (subst link_poll.simps)
  apply (simp add: driver_call_eq slow_failing_env_def quiet_env_def sleep_def)
  apply (subst link_poll.simps)
  apply simp
  done

lemma link_attempt_slow_failing:
  "link_attempt slow_failing_env w
     = (Inr None,
        \<lparr>clock = clock w + 10200,
         trace = trace w @ [Perform ''Alt+S'', Script ReadText, Script ReadText]\<rparr>)"
proof -
  have p: "driver_call slow_failing_env (Perform ''Alt+S'') w
      = (Inr VNone, \<lparr>clock = clock w, trace = trace w @ [Perform ''Alt+S'']\<rparr>)"
    by (simp add: driver_call_eq slow_failing_env_def quiet_env_def)
  have q: "link_poll slow_failing_env (clock w) \<lparr>clock = clock w, trace = trace w @ [Perform ''Alt+S'']\<rparr>
      = (Inr None,
         \<lparr>clock = clock w + 5200, trace = trace w @ [Perform ''Alt+S'', Script ReadText]\<rparr>)"
    using link_poll_slow_failing [of "\<lparr>clock = clock w, trace = trace w @ [Perform ''Alt+S'']\<rparr>"]
    by simp
  have r: "read_text_or_none slow_failing_env
        \<lparr>clock = clock w + 5200, trace = trace w @ [Perform ''Alt+S'', Script ReadText]\<rparr>
      = (Inr VNone,
         \<lparr>clock = clock w + 10200,
          trace = trace w @ [Perform ''Alt+S'', Script ReadText, Script ReadText]\<rparr>)"
    by (simp add: read_text_or_none_def driver_call_eq slow_failing_env_def quiet_env_def)
  show ?thesis
    by (simp add: link_attempt_def and_then_def p q r)
qed

text \<open>
  The claim as stated fails for errors of the clipboard read: when every read raises
  \<^verbatim>\<open>WebDriverException\<close>, the loop still makes all five attempts.
\<close>

theorem link_read_errors_retried_counterexample:
  "trigger_screenshot_and_get_link slow_failing_env (live_scraper False) fresh
     = (Inr None,
        \<lparr>clock = 55000,
         trace =
           [Perform ''Alt+S'', Script ReadText, Script ReadText,
            Perform ''Alt+S'', Script ReadText, Script ReadText,
            Perform ''Alt+S'', Script ReadText, Script ReadText,
            Perform ''Alt+S'', Script ReadText, Script ReadText,
            Perform ''Alt+S'', Script ReadText, Script ReadText]\<rparr>)"
  unfolding trigger_screenshot_and_get_link_def
  apply (simp add: live_scraper_def fresh_def)
  apply (subst link_attempts.simps, simp add: link_attempt_slow_failing
      MAX_CLIPBOARD_ATTEMPTS_def CLIPBOARD_RETRY_INTERVAL_def sleep_def)+
  done

section \<open>Single passes of the capture loops\<close>

lemma strip_nonempty: "\<not> is_space c \<Longrightarrow> strip (c # s) \<noteq> []"
  by (auto simp: strip_def dropWhile_eq_Nil_conv)

lemma sends_driver_call:
  "driver_call e ev w = (r, w') \<Longrightarrow>
     sends chord w' = sends chord w + (if ev = Perform chord then 1 else 0)"
  by (auto simp: driver_call_eq sends_def)

lemma sends_sleep: "sends chord (sleep ms w) = sends chord w"
  by (simp add: sends_def sleep_def)





lemma text_poll_nothing_at:
  assumes "\<forall>w. sends chord w = j \<longrightarrow> yields_nothing (snd (respond e (Script ReadText) w))"
    and "sends chord w = j"
  shows "\<exists>w'. text_poll e start w = (Inr None, w') \<and> sends chord w' = j"
  using assms
proof (induction e start w rule: text_poll.induct)
  case (1 e start w)
  note quiet = "1.prems"(1) and at = "1.prems"(2)
  show ?case
  proof (cases "clock w - start < MAX_CLIPBOARD_WAIT_TIME")
    case False
    then show ?thesis using at by (subst text_poll.simps) simp
  next
    case True
    obtain r w1 where c: "driver_call e (Script ReadText) w = (r, w1)"
      by (cases "driver_call e (Script ReadText) w")
    then have r: "r = snd (respond e (Script ReadText) w)" by (simp add: driver_call_eq)
    have y: "yields_nothing r" unfolding r using quiet at by blast
    have at1: "sends chord (sleep 100 w1) = j"
      using sends_driver_call [OF c, of chord] at by (simp add: sends_sleep)
    show ?thesis
    proof (cases r)
      case (Inl x)
      then have wd: "is_WebDriverException x" using y by (simp add: yields_nothing_def)
      have "\<exists>w'. text_poll e start (sleep 100 w1) = (Inr None, w') \<and> sends chord w' = j"
        using "1.IH"(1) [OF True c [symmetric] Inl wd quiet at1] .
      then show ?thesis using True c Inl wd by (subst text_poll.simps) simp
    next
      case (Inr v)
      then have st: "nonblank_text v = Inr None"
        using y by (simp add: yields_nothing_def blank_nonblank_text)
      have "\<exists>w'. text_poll e start (sleep 100 w1) = (Inr None, w') \<and> sends chord w' = j"
        using "1.IH"(2) [OF True c [symmetric] Inr st refl quiet at1] .
      then show ?thesis using True c Inr st by (subst text_poll.simps) simp
    qed
  qed
qed










section \<open>Properties of the server error in the clipboard text\<close>

lemma text_poll_first_read:
  assumes "driver_call e (Script ReadText) w = (Inr (VStr payload), w')"
    and "strip payload \<noteq> []"
  shows "text_poll e (clock w) w = (Inr (Some payload), w')"
  using assms
  by (subst text_poll.simps) (simp add: MAX_CLIPBOARD_WAIT_TIME_def)

text \<open>
  The text that the JSON check of an attempt sees is the one that the polling loop
  returns or, when the loop ends empty-handed, the one of the read after it.
\<close>

lemma text_attempt_checked:
  assumes "send_save_shortcut e s w = (Inr (), w1)"
    and "text_poll e (clock w1) w1 = (Inr (Some payload), w3)
         \<or> (\<exists>w2. text_poll e (clock w1) w1 = (Inr None, w2)
                \<and> read_text_or_none e w2 = (Inr (VStr payload), w3))"
    and "strip payload \<noteq> []"
  shows "text_attempt e s w =
           (if retryable_server_error e payload then (Inl TradingViewClipboardServerError, w3)
            else (Inr (Some payload), w3))"
  using assms by (auto simp: text_attempt_def and_then_def)

text \<open>The text that is read after an alternative shortcut is not checked.\<close>

lemma text_attempt_alternative:
  assumes "send_save_shortcut e s w = (Inr (), w1)"
    and "text_poll e (clock w1) w1 = (Inr None, w2)"
    and "read_text_or_none e w2 = (Inr v, w3)" and "blank v"
    and "try_alternative_shortcuts e w3 = (Inr True, w4)"
    and "read_text_or_none e w4 = (Inr (VStr payload), w5)"
    and "strip payload \<noteq> []"
  shows "text_attempt e s w = (Inr (Some payload), w5)"
  using assms by (simp add: text_attempt_def and_then_def blank_nonblank_text)

text \<open>
  Claim C2, amended: in the traditional path, the JSON check of an attempt sees the text
  that the polling loop after the save chord returns or, when the loop ends empty-handed,
  the text of the one read after it. When that text parses as
  \<^verbatim>\<open>{"success": false, "code": 50000, "msg": "Server Error"}\<close>, the attempt raises the
  clipboard server error, which the retry loop catches: the text is not returned and the
  request does not fail at once, the loop goes on with the next attempt after the retry
  interval and ends with \<^verbatim>\<open>TradingViewScraperError\<close> when this was the last attempt. When
  that text parses as \<^verbatim>\<open>{"success": false, "code": 40099, "msg": "Bad Input"}\<close>, it takes
  no retry path and is not treated as empty either: it is returned as the clipboard
  content. A text that is only read after an alternative shortcut is not checked at all: it
  is returned as the clipboard content whatever it parses as, the payload with code 50000
  included.
\<close>

theorem server_error_classification:
  assumes "\<not> use_save_shortcut s" and "attempt < MAX_CLIPBOARD_ATTEMPTS"
    and "send_save_shortcut e s w = (Inr (), w1)"
    and "strip payload \<noteq> []"
    and "json_loads e payload = Some (Dict response)"
    and "response ''success'' = Some (JBool False)"
    and "response ''code'' = Some (JInt code)"
    and "response ''msg'' = Some (JStr msg)"
  shows
    "(\<forall>w3.
        text_poll e (clock w1) w1 = (Inr (Some payload), w3)
        \<or> (\<exists>w2. text_poll e (clock w1) w1 = (Inr None, w2)
               \<and> read_text_or_none e w2 = (Inr (VStr payload), w3)) \<longrightarrow>
        (code = 50000 \<and> msg = ''Server Error'' \<longrightarrow>
           text_attempt e s w = (Inl TradingViewClipboardServerError, w3)
           \<and> get_clipboard_attempts e s attempt w
               = get_clipboard_attempts e s (Suc attempt) (retry_wait s attempt w3)
           \<and> (Suc attempt = MAX_CLIPBOARD_ATTEMPTS \<longrightarrow>
                get_clipboard_attempts e s attempt w = (Inl TradingViewScraperError, w3)))
        \<and> (code = 40099 \<and> msg = ''Bad Input'' \<longrightarrow>
             text_attempt e s w = (Inr (Some payload), w3)
             \<and> get_clipboard_attempts e s attempt w = (Inr payload, w3)))
     \<and> (\<forall>w2 v w3 w4 w5.
          text_poll e (clock w1) w1 = (Inr None, w2)
          \<and> read_text_or_none e w2 = (Inr v, w3) \<and> blank v
          \<and> try_alternative_shortcuts e w3 = (Inr True, w4)
          \<and> read_text_or_none e w4 = (Inr (VStr payload), w5) \<longrightarrow>
          text_attempt e s w = (Inr (Some payload), w5)
          \<and> get_clipboard_attempts e s attempt w = (Inr payload, w5))"
proof (intro conjI allI impI)
  fix w3
  assume seen: "text_poll e (clock w1) w1 = (Inr (Some payload), w3)
        \<or> (\<exists>w2. text_poll e (clock w1) w1 = (Inr None, w2)
               \<and> read_text_or_none e w2 = (Inr (VStr payload), w3))"
  note checked = text_attempt_checked [OF assms(3) seen assms(4)]
  {
    assume c: "code = 50000 \<and> msg = ''Server Error''"
    then have "retryable_server_error e payload"
      using assms(5-8) by (simp add: retryable_server_error_def code_retryable_def)
    then show a: "text_attempt e s w = (Inl TradingViewClipboardServerError, w3)"
      using checked by simp
    show b: "get_clipboard_attempts e s attempt w =
        get_clipboard_attempts e s (Suc attempt) (retry_wait s attempt w3)"
      using assms(1,2) a by (subst get_clipboard_attempts.simps) simp
    {
      assume last: "Suc attempt = MAX_CLIPBOARD_ATTEMPTS"
      then have "retry_wait s attempt w3 = w3" by (auto simp: retry_wait_def)
      moreover have "get_clipboard_attempts e s (Suc attempt) w3 = (Inl TradingViewScraperError, w3)"
        using last by (subst get_clipboard_attempts.simps) simp
      ultimately show "get_clipboard_attempts e s attempt w = (Inl TradingViewScraperError, w3)"
        using b by simp
    }
  }
  {
    assume c: "code = 40099 \<and> msg = ''Bad Input''"
    then have "\<not> retryable_server_error e payload"
      using assms(5-8)
      by (simp add: retryable_server_error_def code_retryable_def msg_mentions_server_error_def)
    then show a: "text_attempt e s w = (Inr (Some payload), w3)"
      using checked by simp
    show "get_clipboard_attempts e s attempt w = (Inr payload, w3)"
      using assms(1,2) a by (subst get_clipboard_attempts.simps) simp
  }
next
  fix w2 v w3 w4 w5
  assume alt: "text_poll e (clock w1) w1 = (Inr None, w2)
          \<and> read_text_or_none e w2 = (Inr v, w3) \<and> blank v
          \<and> try_alternative_shortcuts e w3 = (Inr True, w4)
          \<and> read_text_or_none e w4 = (Inr (VStr payload), w5)"
  show a: "text_attempt e s w = (Inr (Some payload), w5)"
    using text_attempt_alternative [OF assms(3) _ _ _ _ _ assms(4)] alt by blast
  show "get_clipboard_attempts e s attempt w = (Inr payload, w5)"
    using assms(1,2) a by (subst get_clipboard_attempts.simps) simp
qed

lemma strip_error_payload: "strip (error_payload code msg) \<noteq> []"
  by (simp add: error_payload_def strip_nonempty is_space_def)

lemma error_env_facts:
  "send_save_shortcut (error_env code_text code msg) (live_scraper False) fresh
     = (Inr (), \<lparr>clock = 0, trace = [Perform ''Shift+Ctrl+S'']\<rparr>)"
  "driver_call (error_env code_text code msg) (Script ReadText)
       \<lparr>clock = 0, trace = [Perform ''Shift+Ctrl+S'']\<rparr>
     = (Inr (VStr (error_payload code_text msg)),
        \<lparr>clock = 0, trace = [Perform ''Shift+Ctrl+S'', Script ReadText]\<rparr>)"
  "json_loads (error_env code_text code msg) (error_payload code_text msg)
     = Some (Dict (error_response code msg))"
  "error_response code msg ''success'' = Some (JBool False)"
  "error_response code msg ''code'' = Some (JInt code)"
  "error_response code msg ''msg'' = Some (JStr msg)"
  by (simp_all add: send_save_shortcut_def save_chord_def driver_call_eq error_env_def quiet_env_def
      live_scraper_def fresh_def error_response_def)

lemma alt_error_env_facts:
  "send_save_shortcut (alt_error_env code_text code msg) (live_scraper False) fresh
     = (Inr (), \<lparr>clock = 0, trace = [Perform ''Shift+Ctrl+S'']\<rparr>)"
  "\<forall>w. sends ''Ctrl+Alt+S'' w = 0 \<longrightarrow>
       yields_nothing (snd (respond (alt_error_env code_text code msg) (Script ReadText) w))"
  "sends ''Ctrl+Alt+S'' w = 0 \<Longrightarrow>
     read_text_or_none (alt_error_env code_text code msg) w
       = (Inr VNone, \<lparr>clock = clock w, trace = trace w @ [Script ReadText]\<rparr>)"
  "try_alternative_shortcuts (alt_error_env code_text code msg) w
     = (Inr True, \<lparr>clock = clock w + 2000, trace = trace w @ [Perform ''Ctrl+Alt+S'']\<rparr>)"
  "0 < sends ''Ctrl+Alt+S'' w \<Longrightarrow>
     read_text_or_none (alt_error_env code_text code msg) w
       = (Inr (VStr (error_payload code_text msg)),
          \<lparr>clock = clock w, trace = trace w @ [Script ReadText]\<rparr>)"
  "json_loads (alt_error_env code_text code msg) (error_payload code_text msg)
     = Some (Dict (error_response code msg))"
  by (simp_all add: send_save_shortcut_def save_chord_def driver_call_eq alt_error_env_def
      quiet_env_def live_scraper_def fresh_def yields_nothing_def read_text_or_none_def
      try_alternative_shortcuts_def sleep_def)

theorem server_error_classification_witness:
  "\<not> use_save_shortcut (live_scraper False) \<and> 0 < MAX_CLIPBOARD_ATTEMPTS
   \<and> strip (error_payload ''50000'' ''Server Error'') \<noteq> []
   \<and> json_loads (error_env ''50000'' 50000 ''Server Error'') (error_payload ''50000'' ''Server Error'')
       = Some (Dict (error_response 50000 ''Server Error''))
   \<and> error_response 50000 ''Server Error'' ''success'' = Some (JBool False)
   \<and> error_response 50000 ''Server Error'' ''code'' = Some (JInt 50000)
   \<and> error_response 50000 ''Server Error'' ''msg'' = Some (JStr ''Server Error'')
   \<and> text_attempt (error_env ''50000'' 50000 ''Server Error'') (live_scraper False) fresh
       = (Inl TradingViewClipboardServerError,
          \<lparr>clock = 0, trace = [Perform ''Shift+Ctrl+S'', Script ReadText]\<rparr>)
   \<and> get_clipboard_attempts (error_env ''50000'' 50000 ''Server Error'') (live_scraper False) 0 fresh
       = get_clipboard_attempts (error_env ''50000'' 50000 ''Server Error'') (live_scraper False)
           (Suc 0) \<lparr>clock = 1000, trace = [Perform ''Shift+Ctrl+S'', Script ReadText]\<rparr>
   \<and> json_loads (error_env ''40099'' 40099 ''Bad Input'') (error_payload ''40099'' ''Bad Input'')
       = Some (Dict (error_response 40099 ''Bad Input''))
   \<and> get_clipboard_attempts (error_env ''40099'' 40099 ''Bad Input'') (live_scraper False) 0 fresh
       = (Inr (error_payload ''40099'' ''Bad Input''),
          \<lparr>clock = 0, trace = [Perform ''Shift+Ctrl+S'', Script ReadText]\<rparr>)
   \<and> json_loads (alt_error_env ''50000'' 50000 ''Server Error'')
         (error_payload ''50000'' ''Server Error'')
       = Some (Dict (error_response 50000 ''Server Error''))
   \<and> retryable_server_error (alt_error_env ''50000'' 50000 ''Server Error'')
         (error_payload ''50000'' ''Server Error'')
   \<and> (\<exists>w5. get_clipboard_attempts (alt_error_env ''50000'' 50000 ''Server Error'')
               (live_scraper False) 0 fresh
             = (Inr (error_payload ''50000'' ''Server Error''), w5)
           \<and> sends ''Ctrl+Alt+S'' w5 = 1)"
proof -
  let ?p = "error_payload ''50000'' ''Server Error''"
  let ?q = "error_payload ''40099'' ''Bad Input''"
  let ?e = "error_env ''50000'' 50000 ''Server Error''"
  let ?f = "error_env ''40099'' 40099 ''Bad Input''"
  let ?g = "alt_error_env ''50000'' 50000 ''Server Error''"
  let ?w1 = "\<lparr>clock = 0, trace = [Perform ''Shift+Ctrl+S'']\<rparr>"
  let ?w3 = "\<lparr>clock = 0, trace = [Perform ''Shift+Ctrl+S'', Script ReadText]\<rparr>"
  have h1: "\<not> use_save_shortcut (live_scraper False)" by (simp add: live_scraper_def)
  have h2: "0 < MAX_CLIPBOARD_ATTEMPTS" by (simp add: MAX_CLIPBOARD_ATTEMPTS_def)
  have pe: "text_poll ?e (clock ?w1) ?w1 = (Inr (Some ?p), ?w3)"
    by (rule text_poll_first_read [OF error_env_facts(2) strip_error_payload])
  have pf: "text_poll ?f (clock ?w1) ?w1 = (Inr (Some ?q), ?w3)"
    by (rule text_poll_first_read [OF error_env_facts(2) strip_error_payload])
  note a =
    server_error_classification
      [OF h1 h2
          error_env_facts(1) [of "''50000''" 50000 "''Server Error''"]
          strip_error_payload [of "''50000''" "''Server Error''"]
          error_env_facts(3) [of "''50000''" 50000 "''Server Error''"]
          error_env_facts(4) [of 50000 "''Server Error''"]
          error_env_facts(5) [of 50000 "''Server Error''"]
          error_env_facts(6) [of 50000 "''Server Error''"],
       THEN conjunct1, rule_format, OF disjI1 [OF pe], THEN conjunct1, rule_format,
       OF conjI [OF refl refl]]
  note b =
    server_error_classification
      [OF h1 h2
          error_env_facts(1) [of "''40099''" 40099 "''Bad Input''"]
          strip_error_payload [of "''40099''" "''Bad Input''"]
          error_env_facts(3) [of "''40099''" 40099 "''Bad Input''"]
          error_env_facts(4) [of 40099 "''Bad Input''"]
          error_env_facts(5) [of 40099 "''Bad Input''"]
          error_env_facts(6) [of 40099 "''Bad Input''"],
       THEN conjunct1, rule_format, OF disjI1 [OF pf], THEN conjunct2, rule_format,
       OF conjI [OF refl refl]]
  have w: "retry_wait (live_scraper False) 0 ?w3
      = \<lparr>clock = 1000, trace = [Perform ''Shift+Ctrl+S'', Script ReadText]\<rparr>"
    by (simp add: retry_wait_def live_scraper_def MAX_CLIPBOARD_ATTEMPTS_def
        CLIPBOARD_RETRY_INTERVAL_def sleep_def)
  have s1: "sends ''Ctrl+Alt+S'' ?w1 = 0" by (simp add: sends_def)
  obtain w2 where p2: "text_poll ?g (clock ?w1) ?w1 = (Inr None, w2)"
    and s2: "sends ''Ctrl+Alt+S'' w2 = 0"
    using text_poll_nothing_at [OF alt_error_env_facts(2) s1] by blast
  let ?w3' = "\<lparr>clock = clock w2, trace = trace w2 @ [Script ReadText]\<rparr>"
  let ?w4 = "\<lparr>clock = clock ?w3' + 2000, trace = trace ?w3' @ [Perform ''Ctrl+Alt+S'']\<rparr>"
  let ?w5 = "\<lparr>clock = clock ?w4, trace = trace ?w4 @ [Script ReadText]\<rparr>"
  have r3: "read_text_or_none ?g w2 = (Inr VNone, ?w3')"
    by (rule alt_error_env_facts(3) [OF s2])
  have bl: "blank VNone" by simp
  have t4: "try_alternative_shortcuts ?g ?w3' = (Inr True, ?w4)"
    by (rule alt_error_env_facts(4))
  have s4: "0 < sends ''Ctrl+Alt+S'' ?w4" using s2 by (simp add: sends_def)
  have r5: "read_text_or_none ?g ?w4 = (Inr (VStr ?p), ?w5)"
    by (rule alt_error_env_facts(5) [OF s4])
  have s5: "sends ''Ctrl+Alt+S'' ?w5 = 1" using s2 by (simp add: sends_def)
  note c =
    server_error_classification
      [OF h1 h2
          alt_error_env_facts(1) [of "''50000''" 50000 "''Server Error''"]
          strip_error_payload [of "''50000''" "''Server Error''"]
          alt_error_env_facts(6) [of "''50000''" 50000 "''Server Error''"]
          error_env_facts(4) [of 50000 "''Server Error''"]
          error_env_facts(5) [of 50000 "''Server Error''"]
          error_env_facts(6) [of 50000 "''Server Error''"],
       THEN conjunct2, rule_format,
       OF conjI [OF p2 conjI [OF r3 conjI [OF bl conjI [OF t4 r5]]]]]
  have c': "\<exists>w5. get_clipboard_attempts ?g (live_scraper False) 0 fresh = (Inr ?p, w5)
           \<and> sends ''Ctrl+Alt+S'' w5 = 1"
    using c s5 by blast
  have re: "retryable_server_error ?g ?p"
    by (simp add: retryable_server_error_def alt_error_env_facts(6) error_env_facts(4,5,6)
        code_retryable_def)
  show ?thesis
    using h1 h2 a b w c' re strip_error_payload [of "''50000''" "''Server Error''"]
      error_env_facts(3) [of "''50000''" 50000 "''Server Error''"]
      error_env_facts(3) [of "''40099''" 40099 "''Bad Input''"]
      alt_error_env_facts(6) [of "''50000''" 50000 "''Server Error''"]
      error_env_facts(4,5,6) [of 50000 "''Server Error''"]
    by simp
qed

text \<open>
  The claim as stated fails for the payload with code 40099: it is not treated as empty
  content, the first attempt returns it to the caller as the content of the clipboard.
\<close>

theorem bad_input_returned_counterexample:
  "get_clipboard_content (error_env ''40099'' 40099 ''Bad Input'') (live_scraper False) fresh
     = (Inr (error_payload ''40099'' ''Bad Input''),
        \<lparr>clock = 0, trace = [Perform ''Shift+Ctrl+S'', Script ReadText]\<rparr>)"
proof -
  have t: "text_poll (error_env ''40099'' 40099 ''Bad Input'')
        (clock \<lparr>clock = 0, trace = [Perform ''Shift+Ctrl+S'']\<rparr>)
        \<lparr>clock = 0, trace = [Perform ''Shift+Ctrl+S'']\<rparr>
      = (Inr (Some (error_payload ''40099'' ''Bad Input'')),
         \<lparr>clock = 0, trace = [Perform ''Shift+Ctrl+S'', Script ReadText]\<rparr>)"
    by (rule text_poll_first_read [OF error_env_facts(2) strip_error_payload])
  have n: "\<not> retryable_server_error (error_env ''40099'' 40099 ''Bad Input'')
        (error_payload ''40099'' ''Bad Input'')"
    by (simp add: retryable_server_error_def error_env_facts code_retryable_def
        msg_mentions_server_error_def)
  have "text_attempt (error_env ''40099'' 40099 ''Bad Input'') (live_scraper False) fresh
      = (Inr (Some (error_payload ''40099'' ''Bad Input'')),
         \<lparr>clock = 0, trace = [Perform ''Shift+Ctrl+S'', Script ReadText]\<rparr>)"
    using t n by (simp add: text_attempt_def and_then_def error_env_facts(1))
  then show ?thesis
    unfolding get_clipboard_content_def
    by (subst get_clipboard_attempts.simps)
       (simp add: live_scraper_def MAX_CLIPBOARD_ATTEMPTS_def)
qed
section \<open>Properties of the readiness probing\<close>

lemma within_refl: "within 0 w w"
  by (simp add: within_def)

lemma within_mono: "within n w w' \<Longrightarrow> n \<le> m \<Longrightarrow> within m w w'"
  by (simp add: within_def)

lemma within_trans: "within n w w1 \<Longrightarrow> within m w1 w2 \<Longrightarrow> within (n + m) w w2"
  by (auto simp: within_def)

lemma within_sleep: "within n w w' \<Longrightarrow> within n w (sleep ms w')"
  by (simp add: within_def sleep_def)

lemma within_driver_call: "within 1 w (snd (driver_call e ev w))"
  by (simp add: within_def driver_call_eq)

lemma within_and_then:
  assumes "within n w (snd m)"
    and "\<And>v w1. m = (Inr v, w1) \<Longrightarrow> within k w1 (snd (f v w1))"
  shows "within (n + k) w (snd (and_then m f))"
proof (cases m)
  case (Pair r w1)
  show ?thesis
  proof (cases r)
    case (Inl x)
    then show ?thesis
      using Pair assms(1) by (auto simp: and_then_def intro: within_mono)
  next
    case (Inr v)
    then have "within k w1 (snd (f v w1))" using Pair assms(2) by simp
    moreover have "within n w w1" using Pair assms(1) by simp
    ultimately show ?thesis using Pair Inr by (auto simp: and_then_def intro: within_trans)
  qed
qed

lemma within_any_of: "within (length sels) w (snd (any_of e sels w))"
proof (induction sels arbitrary: w)
  case Nil
  show ?case by (simp add: within_refl)
next
  case (Cons selector sels)
  obtain r1 w1 where c: "driver_call e (FindElement selector) w = (r1, w1)"
    by (cases "driver_call e (FindElement selector) w")
  have a: "within 1 w w1" using within_driver_call [of w e "FindElement selector"] c by simp
  have b: "within (1 + length sels) w (snd (any_of e sels w1))"
    using a Cons.IH [of w1] by (rule within_trans)
  have a': "within (1 + length sels) w w1" using a by (rule within_mono) simp
  show ?case using a' b c by (cases r1) simp_all
qed

lemma any_of_no_other_exception:
  assumes "\<forall>selector w. no_other_exception (snd (respond e (FindElement selector) w))"
  shows "\<exists>found w'. any_of e sels w = (Inr found, w')"
proof (induction sels arbitrary: w)
  case Nil
  show ?case by auto
next
  case (Cons selector sels)
  have n: "no_other_exception (snd (respond e (FindElement selector) w))"
    using assms by blast
  obtain r1 w1 where c: "driver_call e (FindElement selector) w = (r1, w1)"
    by (cases "driver_call e (FindElement selector) w")
  then have r1: "r1 = snd (respond e (FindElement selector) w)" by (simp add: driver_call_eq)
  obtain found w2 where ih: "any_of e sels w1 = (Inr found, w2)"
    using Cons.IH by blast
  show ?case
  proof (cases r1)
    case (Inl x)
    then have "is_WebDriverException x" using n r1 by (simp add: no_other_exception_def)
    then show ?thesis using Inl c ih by simp
  next
    case (Inr v)
    then show ?thesis using c ih by auto
  qed
qed

text \<open>The infrastructure wait evaluates its condition at most thirteen times.\<close>

lemma within_until:
  "within (4 * (1 + (end_time - clock w) div 500)) w (snd (until e end_time w))"
proof (induction e end_time w rule: until.induct)
  case (1 e end_time w)
  obtain r w1 where c: "any_of e infrastructure_selectors w = (r, w1)"
    by (cases "any_of e infrastructure_selectors w")
  have len: "length infrastructure_selectors = 4"
    by (simp add: infrastructure_selectors_def)
  have "within (length infrastructure_selectors) w (snd (any_of e infrastructure_selectors w))"
    by (rule within_any_of)
  then have a: "within 4 w w1" using c len by simp
  have a': "within (4 * (1 + (end_time - clock w) div 500)) w w1"
    using a by (rule within_mono) simp
  show ?case
  proof (cases r)
    case (Inl x)
    then show ?thesis using c a' by (subst until.simps) simp
  next
    case (Inr found)
    show ?thesis
    proof (cases "found \<or> end_time < clock (sleep 500 w1)")
      case True
      then show ?thesis
        using c Inr a' by (subst until.simps) (auto intro: within_sleep)
    next
      case False
      then have nf: "\<not> found" and le: "clock (sleep 500 w1) \<le> end_time" by auto
      have ih: "within (4 * (1 + (end_time - clock (sleep 500 w1)) div 500)) (sleep 500 w1)
                  (snd (until e end_time (sleep 500 w1)))"
        using "1.IH" [OF c [symmetric] Inr nf] le by simp
      have s: "within 4 w (sleep 500 w1)" using a by (rule within_sleep)
      have cl: "clock w + 500 \<le> clock (sleep 500 w1)"
        using a by (simp add: within_def sleep_def)
      have "(end_time - clock (sleep 500 w1)) div 500 + 1 \<le> (end_time - clock w) div 500"
      proof -
        have "end_time - clock (sleep 500 w1) + 500 \<le> end_time - clock w"
          using cl le by simp
        then have "(end_time - clock (sleep 500 w1) + 500) div 500 \<le> (end_time - clock w) div 500"
          by (rule div_le_mono)
        then show ?thesis by simp
      qed
      then have b: "4 + 4 * (1 + (end_time - clock (sleep 500 w1)) div 500)
                    \<le> 4 * (1 + (end_time - clock w) div 500)"
        by simp
      have "within (4 + 4 * (1 + (end_time - clock (sleep 500 w1)) div 500)) w
              (snd (until e end_time (sleep 500 w1)))"
        using s ih by (rule within_trans)
      then have "within (4 * (1 + (end_time - clock w) div 500)) w
              (snd (until e end_time (sleep 500 w1)))"
        using b by (rule within_mono)
      then show ?thesis
        using c Inr nf le by (subst until.simps) simp
    qed
  qed
qed

lemma until_no_other_exception:
  assumes "\<forall>selector w. no_other_exception (snd (respond e (FindElement selector) w))"
  shows "\<exists>r w'. until e end_time w = (r, w') \<and> (r = Inr () \<or> r = Inl TimeoutException)"
  using assms
proof (induction e end_time w rule: until.induct)
  case (1 e end_time w)
  obtain found w1 where c: "any_of e infrastructure_selectors w = (Inr found, w1)"
    using any_of_no_other_exception [OF "1.prems"] by blast
  show ?case
  proof (cases "found \<or> end_time < clock (sleep 500 w1)")
    case True
    then show ?thesis using c by (subst until.simps) auto
  next
    case False
    then have nf: "\<not> found" and le: "\<not> end_time < clock (sleep 500 w1)" by auto
    show ?thesis
      using "1.IH" [OF c [symmetric] refl nf le "1.prems"] c nf le
      by (subst until.simps) simp
  qed
qed


lemma within_element_probe: "within 3 w (snd (element_probe e w))"
proof -
  have "within (1 + (1 + (1 + 0))) w (snd (element_probe e w))"
    unfolding element_probe_def snd_swallow
    by (intro within_and_then within_driver_call) (simp add: within_refl)
  then show ?thesis by (simp add: numeral_3_eq_3)
qed

lemma within_loading_probe: "within 1 w (snd (loading_probe e w))"
proof -
  have "within (1 + 0) w (snd (loading_probe e w))"
    unfolding loading_probe_def snd_swallow
    by (intro within_and_then within_driver_call) (simp add: within_refl)
  then show ?thesis by (simp add: numeral_3_eq_3)
qed

lemma within_data_probe: "within 3 w (snd (data_probe e w))"
proof -
  have "within (1 + (1 + (1 + 0))) w (snd (data_probe e w))"
    unfolding data_probe_def snd_swallow
    by (intro within_and_then within_driver_call) (simp add: within_refl)
  then show ?thesis by (simp add: numeral_3_eq_3)
qed

text \<open>
  A loop that sleeps a tenth of a second per pass makes at most as many passes as its
  bound has tenths of a second left.
\<close>

lemma passes_step:
  assumes "clock w - start < bound" and "clock w + 100 \<le> c'"
  shows "Suc ((start + bound + 99 - c') div 100) \<le> (start + bound + 99 - clock w) div 100"
proof -
  have "start + bound + 99 - c' + 100 \<le> start + bound + 99 - clock w"
    using assms by simp
  then have "(start + bound + 99 - c' + 100) div 100 \<le> (start + bound + 99 - clock w) div 100"
    by (rule div_le_mono)
  then show ?thesis by simp
qed

lemma within_element_poll:
  "within (3 * ((start + 2000 + 99 - clock w) div 100)) w (snd (element_poll e start w))"
proof (induction e start w rule: element_poll.induct)
  case (1 e start w)
  show ?case
  proof (cases "clock w - start < 2000")
    case False
    then show ?thesis by (subst element_poll.simps) (simp add: within_def)
  next
    case True
    obtain ready w1 where c: "element_probe e w = (ready, w1)"
      by (cases "element_probe e w")
    have a: "within 3 w w1" using within_element_probe [of w e] c by simp
    have cl: "clock w + 100 \<le> clock (sleep 100 w1)"
      using a by (simp add: within_def sleep_def)
    note st = passes_step [OF True cl]
    show ?thesis
    proof (cases ready)
      case True
      have "within (3 * ((start + 2000 + 99 - clock w) div 100)) w w1"
        using a by (rule within_mono) (use st in simp)
      then show ?thesis using \<open>clock w - start < 2000\<close> c True
        by (subst element_poll.simps) simp
    next
      case False
      have ih: "within (3 * ((start + 2000 + 99 - clock (sleep 100 w1)) div 100)) (sleep 100 w1)
                  (snd (element_poll e start (sleep 100 w1)))"
        using "1.IH" [OF \<open>clock w - start < 2000\<close> c [symmetric] False] .
      have "within (3 + 3 * ((start + 2000 + 99 - clock (sleep 100 w1)) div 100)) w
                  (snd (element_poll e start (sleep 100 w1)))"
        using within_sleep [OF a] ih by (rule within_trans)
      then have "within (3 * ((start + 2000 + 99 - clock w) div 100)) w
                  (snd (element_poll e start (sleep 100 w1)))"
        by (rule within_mono) (use st in simp)
      then show ?thesis using \<open>clock w - start < 2000\<close> c False
        by (subst element_poll.simps) simp
    qed
  qed
qed

lemma within_data_poll:
  "within (3 * ((start + 2000 + 99 - clock w) div 100)) w (snd (data_poll e start w))"
proof (induction e start w rule: data_poll.induct)
  case (1 e start w)
  show ?case
  proof (cases "clock w - start < 2000")
    case False
    then show ?thesis by (subst data_poll.simps) (simp add: within_def)
  next
    case True
    obtain ready w1 where c: "data_probe e w = (ready, w1)"
      by (cases "data_probe e w")
    have a: "within 3 w w1" using within_data_probe [of w e] c by simp
    have cl: "clock w + 100 \<le> clock (sleep 100 w1)"
      using a by (simp add: within_def sleep_def)
    note st = passes_step [OF True cl]
    show ?thesis
    proof (cases ready)
      case True
      have "within (3 * ((start + 2000 + 99 - clock w) div 100)) w w1"
        using a by (rule within_mono) (use st in simp)
      then show ?thesis using \<open>clock w - start < 2000\<close> c True
        by (subst data_poll.simps) simp
    next
      case False
      have ih: "within (3 * ((start + 2000 + 99 - clock (sleep 100 w1)) div 100)) (sleep 100 w1)
                  (snd (data_poll e start (sleep 100 w1)))"
        using "1.IH" [OF \<open>clock w - start < 2000\<close> c [symmetric] False] .
      have "within (3 + 3 * ((start + 2000 + 99 - clock (sleep 100 w1)) div 100)) w
                  (snd (data_poll e start (sleep 100 w1)))"
        using within_sleep [OF a] ih by (rule within_trans)
      then have "within (3 * ((start + 2000 + 99 - clock w) div 100)) w
                  (snd (data_poll e start (sleep 100 w1)))"
        by (rule within_mono) (use st in simp)
      then show ?thesis using \<open>clock w - start < 2000\<close> c False
        by (subst data_poll.simps) simp
    qed
  qed
qed

lemma within_loading_poll:
  "within ((start + 1500 + 99 - clock w) div 100) w (loading_poll e start w)"
proof (induction e start w rule: loading_poll.induct)
  case (1 e start w)
  show ?case
  proof (cases "clock w - start < 1500")
    case False
    then show ?thesis by (subst loading_poll.simps) (simp add: within_def)
  next
    case True
    obtain cleared w1 where c: "loading_probe e w = (cleared, w1)"
      by (cases "loading_probe e w")
    have a: "within 1 w w1" using within_loading_probe [of w e] c by simp
    have cl: "clock w + 100 \<le> clock (sleep 100 w1)"
      using a by (simp add: within_def sleep_def)
    note st = passes_step [OF True cl]
    show ?thesis
    proof (cases cleared)
      case True
      have "within ((start + 1500 + 99 - clock w) div 100) w w1"
        using a by (rule within_mono) (use st in simp)
      then show ?thesis using \<open>clock w - start < 1500\<close> c True
        by (subst loading_poll.simps) simp
    next
      case False
      have ih: "within ((start + 1500 + 99 - clock (sleep 100 w1)) div 100) (sleep 100 w1)
                  (loading_poll e start (sleep 100 w1))"
        using "1.IH" [OF \<open>clock w - start < 1500\<close> c [symmetric] False] .
      have "within (1 + (start + 1500 + 99 - clock (sleep 100 w1)) div 100) w
                  (loading_poll e start (sleep 100 w1))"
        using within_sleep [OF a] ih by (rule within_trans)
      then have "within ((start + 1500 + 99 - clock w) div 100) w
                  (loading_poll e start (sleep 100 w1))"
        by (rule within_mono) (use st in simp)
      then show ?thesis using \<open>clock w - start < 1500\<close> c False
        by (subst loading_poll.simps) simp
    qed
  qed
qed

text \<open>The time that the probing takes when no query takes more than \<open>d\<close> milliseconds.\<close>

lemma duration_find_element:
  assumes "\<forall>selector w. fst (respond e (FindElement selector) w) \<le> d
                       \<and> fst (respond e (FindElements selector) w) \<le> d"
  shows "clock (snd (driver_call e (FindElement selector) w)) \<le> clock w + d"
  using assms by (simp add: driver_call_eq)

lemma duration_find_elements:
  assumes "\<forall>selector w. fst (respond e (FindElement selector) w) \<le> d
                       \<and> fst (respond e (FindElements selector) w) \<le> d"
  shows "clock (snd (driver_call e (FindElements selector) w)) \<le> clock w + d"
  using assms by (simp add: driver_call_eq)

lemma duration_and_then:
  assumes "clock (snd m) \<le> clock w + n"
    and "\<And>v w1. m = (Inr v, w1) \<Longrightarrow> clock (snd (f v w1)) \<le> clock w1 + k"
  shows "clock (snd (and_then m f)) \<le> clock w + (n + k)"
proof (cases m)
  case (Pair r w1)
  show ?thesis
  proof (cases r)
    case (Inl x)
    then show ?thesis using Pair assms(1) by (simp add: and_then_def)
  next
    case (Inr v)
    then have "clock (snd (f v w1)) \<le> clock w1 + k" using Pair assms(2) by simp
    moreover have "clock w1 \<le> clock w + n" using Pair assms(1) by simp
    ultimately show ?thesis using Pair Inr by (simp add: and_then_def)
  qed
qed

lemma duration_any_of:
  assumes "\<forall>selector w. fst (respond e (FindElement selector) w) \<le> d
                       \<and> fst (respond e (FindElements selector) w) \<le> d"
  shows "clock (snd (any_of e sels w)) \<le> clock w + length sels * d"
proof (induction sels arbitrary: w)
  case Nil
  show ?case by simp
next
  case (Cons selector sels)
  obtain r1 w1 where c: "driver_call e (FindElement selector) w = (r1, w1)"
    by (cases "driver_call e (FindElement selector) w")
  have a: "clock w1 \<le> clock w + d"
    using duration_find_element [OF assms, of selector w] c by simp
  have b: "clock (snd (any_of e sels w1)) \<le> clock w + d + length sels * d"
    using a Cons.IH [of w1] by simp
  show ?case using a b c by (cases r1) simp_all
qed

lemma duration_until:
  assumes "\<forall>selector w. fst (respond e (FindElement selector) w) \<le> d
                       \<and> fst (respond e (FindElements selector) w) \<le> d"
    and "clock w \<le> end_time"
  shows "case until e end_time w of
            (Inl x, w') \<Rightarrow> clock w' \<le> end_time + 4 * d + 500
          | (Inr u, w') \<Rightarrow> clock w' \<le> end_time + 4 * d"
  using assms
proof (induction e end_time w rule: until.induct)
  case (1 e end_time w)
  note slow = "1.prems"(1) and before = "1.prems"(2)
  obtain r w1 where c: "any_of e infrastructure_selectors w = (r, w1)"
    by (cases "any_of e infrastructure_selectors w")
  have "clock (snd (any_of e infrastructure_selectors w))
          \<le> clock w + length infrastructure_selectors * d"
    using slow by (rule duration_any_of)
  then have a: "clock w1 \<le> end_time + 4 * d"
    using c before by (simp add: infrastructure_selectors_def)
  show ?case
  proof (cases r)
    case (Inl x)
    then show ?thesis using c a by (subst until.simps) simp
  next
    case (Inr found)
    show ?thesis
    proof (cases "found \<or> end_time < clock (sleep 500 w1)")
      case True
      then show ?thesis
        using c Inr a by (subst until.simps) (auto simp: sleep_def)
    next
      case False
      then have nf: "\<not> found" and le: "\<not> end_time < clock (sleep 500 w1)" by auto
      have le': "clock (sleep 500 w1) \<le> end_time" using le by simp
      show ?thesis
        using "1.IH" [OF c [symmetric] Inr nf le slow le'] c Inr nf le
        by (subst until.simps) simp
    qed
  qed
qed

lemma duration_element_probe:
  assumes "\<forall>selector w. fst (respond e (FindElement selector) w) \<le> d
                       \<and> fst (respond e (FindElements selector) w) \<le> d"
  shows "clock (snd (element_probe e w)) \<le> clock w + 3 * d"
proof -
  have "clock (snd (element_probe e w)) \<le> clock w + (d + (d + (d + 0)))"
    unfolding element_probe_def snd_swallow
    by (intro duration_and_then duration_find_elements [OF assms]) simp
  then show ?thesis by simp
qed

lemma duration_loading_probe:
  assumes "\<forall>selector w. fst (respond e (FindElement selector) w) \<le> d
                       \<and> fst (respond e (FindElements selector) w) \<le> d"
  shows "clock (snd (loading_probe e w)) \<le> clock w + d"
proof -
  have "clock (snd (loading_probe e w)) \<le> clock w + (d + 0)"
    unfolding loading_probe_def snd_swallow
    by (intro duration_and_then duration_find_elements [OF assms]) simp
  then show ?thesis by simp
qed

lemma duration_data_probe:
  assumes "\<forall>selector w. fst (respond e (FindElement selector) w) \<le> d
                       \<and> fst (respond e (FindElements selector) w) \<le> d"
  shows "clock (snd (data_probe e w)) \<le> clock w + 3 * d"
proof -
  have "clock (snd (data_probe e w)) \<le> clock w + (d + (d + (d + 0)))"
    unfolding data_probe_def snd_swallow
    by (intro duration_and_then duration_find_elements [OF assms]) simp
  then show ?thesis by simp
qed

text \<open>
  A polling loop ends at the latest with the pass that starts just before its bound: a
  probe and a sleep after it.
\<close>

lemma duration_element_poll:
  assumes "\<forall>selector w. fst (respond e (FindElement selector) w) \<le> d
                       \<and> fst (respond e (FindElements selector) w) \<le> d"
  shows "clock (snd (element_poll e start w)) \<le> max (clock w) (start + 2100 + 3 * d)"
  using assms
proof (induction e start w rule: element_poll.induct)
  case (1 e start w)
  note slow = "1.prems"
  show ?case
  proof (cases "clock w - start < 2000")
    case False
    then show ?thesis by (subst element_poll.simps) simp
  next
    case True
    obtain ready w1 where c: "element_probe e w = (ready, w1)"
      by (cases "element_probe e w")
    have a: "clock w1 \<le> clock w + 3 * d"
      using duration_element_probe [OF slow, of w] c by simp
    show ?thesis
    proof (cases ready)
      case True
      then show ?thesis
        using \<open>clock w - start < 2000\<close> c a by (subst element_poll.simps) simp
    next
      case False
      have "clock (snd (element_poll e start (sleep 100 w1)))
              \<le> max (clock (sleep 100 w1)) (start + 2100 + 3 * d)"
        using "1.IH" [OF True c [symmetric] False slow] .
      moreover have "clock (sleep 100 w1) \<le> start + 2100 + 3 * d"
        using a True by (simp add: sleep_def)
      ultimately show ?thesis
        using True c False by (subst element_poll.simps) simp
    qed
  qed
qed

lemma duration_data_poll:
  assumes "\<forall>selector w. fst (respond e (FindElement selector) w) \<le> d
                       \<and> fst (respond e (FindElements selector) w) \<le> d"
  shows "clock (snd (data_poll e start w)) \<le> max (clock w) (start + 2100 + 3 * d)"
  using assms
proof (induction e start w rule: data_poll.induct)
  case (1 e start w)
  note slow = "1.prems"
  show ?case
  proof (cases "clock w - start < 2000")
    case False
    then show ?thesis by (subst data_poll.simps) simp
  next
    case True
    obtain ready w1 where c: "data_probe e w = (ready, w1)"
      by (cases "data_probe e w")
    have a: "clock w1 \<le> clock w + 3 * d"
      using duration_data_probe [OF slow, of w] c by simp
    show ?thesis
    proof (cases ready)
      case True
      then show ?thesis
        using \<open>clock w - start < 2000\<close> c a by (subst data_poll.simps) simp
    next
      case False
      have "clock (snd (data_poll e start (sleep 100 w1)))
              \<le> max (clock (sleep 100 w1)) (start + 2100 + 3 * d)"
        using "1.IH" [OF True c [symmetric] False slow] .
      moreover have "clock (sleep 100 w1) \<le> start + 2100 + 3 * d"
        using a True by (simp add: sleep_def)
      ultimately show ?thesis
        using True c False by (subst data_poll.simps) simp
    qed
  qed
qed

lemma duration_loading_poll:
  assumes "\<forall>selector w. fst (respond e (FindElement selector) w) \<le> d
                       \<and> fst (respond e (FindElements selector) w) \<le> d"
  shows "clock (loading_poll e start w) \<le> max (clock w) (start + 1600 + d)"
  using assms
proof (induction e start w rule: loading_poll.induct)
  case (1 e start w)
  note slow = "1.prems"
  show ?case
  proof (cases "clock w - start < 1500")
    case False
    then show ?thesis by (subst loading_poll.simps) simp
  next
    case True
    obtain cleared w1 where c: "loading_probe e w = (cleared, w1)"
      by (cases "loading_probe e w")
    have a: "clock w1 \<le> clock w + d"
      using duration_loading_probe [OF slow, of w] c by simp
    show ?thesis
    proof (cases cleared)
      case True
      then show ?thesis
        using \<open>clock w - start < 1500\<close> c a by (subst loading_poll.simps) simp
    next
      case False
      have "clock (loading_poll e start (sleep 100 w1))
              \<le> max (clock (sleep 100 w1)) (start + 1600 + d)"
        using "1.IH" [OF True c [symmetric] False slow] .
      moreover have "clock (sleep 100 w1) \<le> start + 1600 + d"
        using a True by (simp add: sleep_def)
      ultimately show ?thesis
        using True c False by (subst loading_poll.simps) simp
    qed
  qed
qed

lemma duration_wait_for_chart:
  assumes "\<forall>selector w. fst (respond e (FindElement selector) w) \<le> d
                       \<and> fst (respond e (FindElements selector) w) \<le> d"
  shows "clock (snd (wait_for_chart e s w))
           \<le> clock w + (if use_save_shortcut s then 9700 + 8 * d else 10200 + 10 * d)"
proof -
  obtain r w1 where u: "until e (clock w + MAX_CHART_WAIT_TIME) w = (r, w1)"
    by (cases "until e (clock w + MAX_CHART_WAIT_TIME) w")
  have "clock w \<le> clock w + MAX_CHART_WAIT_TIME" by simp
  note du = duration_until [OF assms this]
  show ?thesis
  proof (cases r)
    case (Inl x)
    then have "clock w1 \<le> clock w + 6500 + 4 * d"
      using du u by (simp add: MAX_CHART_WAIT_TIME_def)
    then show ?thesis
      using u Inl by (simp add: wait_for_chart_def sleep_def)
  next
    case (Inr v)
    then have a: "clock w1 \<le> clock w + 6000 + 4 * d"
      using du u by (simp add: MAX_CHART_WAIT_TIME_def)
    obtain ready w2 where p: "element_poll e (clock w1) w1 = (ready, w2)"
      by (cases "element_poll e (clock w1) w1")
    have b: "clock w2 \<le> clock w1 + 2100 + 3 * d"
      using duration_element_poll [OF assms, of "clock w1" w1] p by simp
    have c: "clock (snd (data_poll e (clock w2) w2)) \<le> clock w2 + 2100 + 3 * d"
      using duration_data_poll [OF assms, of "clock w2" w2] by simp
    have l: "clock (loading_poll e (clock w2) w2) \<le> clock w2 + 1600 + d"
      using duration_loading_poll [OF assms, of "clock w2" w2] by simp
    show ?thesis
      using u Inr p a b c l by (simp add: wait_for_chart_def)
  qed
qed

text \<open>
  Claim C8, amended: the readiness probing after navigation always ends, for every outcome
  of its queries of the page, present, absent or raising. It makes at most 172 queries, and
  when no query takes more than \<open>d\<close> milliseconds it ends within \<open>10200 + 10 * d\<close>
  milliseconds of its start with the traditional method and within \<open>9700 + 8 * d\<close> with the
  save shortcut. When the element look-ups of the infrastructure wait raise nothing but
  \<^verbatim>\<open>WebDriverException\<close>, it returns normally, whatever the queries of the polling loops
  return or raise. The time it takes is not bounded by \<^verbatim>\<open>MAX_CHART_WAIT_TIME\<close>: that is the
  timeout of the infrastructure wait alone, and each loop after it has a bound of its own.
\<close>

theorem readiness_probing_bounded:
  "within 172 w (snd (wait_for_chart e s w))
   \<and> ((\<forall>selector w. fst (respond e (FindElement selector) w) \<le> d
                       \<and> fst (respond e (FindElements selector) w) \<le> d) \<longrightarrow>
        clock (snd (wait_for_chart e s w))
          \<le> clock w + (if use_save_shortcut s then 9700 + 8 * d else 10200 + 10 * d))
   \<and> ((\<forall>selector w. no_other_exception (snd (respond e (FindElement selector) w))) \<longrightarrow>
        fst (wait_for_chart e s w) = Inr ())"
proof (intro conjI impI)
  obtain r w1 where u: "until e (clock w + MAX_CHART_WAIT_TIME) w = (r, w1)"
    by (cases "until e (clock w + MAX_CHART_WAIT_TIME) w")
  have "within (4 * (1 + (clock w + MAX_CHART_WAIT_TIME - clock w) div 500)) w
          (snd (until e (clock w + MAX_CHART_WAIT_TIME) w))"
    by (rule within_until)
  then have a: "within 52 w w1" using u by (simp add: MAX_CHART_WAIT_TIME_def)
  obtain ready w2 where p: "element_poll e (clock w1) w1 = (ready, w2)"
    by (cases "element_poll e (clock w1) w1")
  have b: "within 60 w1 w2"
    using within_element_poll [of "clock w1" w1 e] p by simp
  have c: "within 60 w2 (snd (data_poll e (clock w2) w2))"
    using within_data_poll [of "clock w2" w2 e] by simp
  have "within 15 w2 (loading_poll e (clock w2) w2)"
    using within_loading_poll [of "clock w2" w2 e] by simp
  then have d: "within 60 w2 (loading_poll e (clock w2) w2)"
    by (rule within_mono) simp
  have ab: "within (52 + 60) w w2" using a b by (rule within_trans)
  have abc: "within (52 + 60 + 60) w (snd (data_poll e (clock w2) w2))"
    using ab c by (rule within_trans)
  have abd: "within (52 + 60 + 60) w (loading_poll e (clock w2) w2)"
    using ab d by (rule within_trans)
  have a': "within 172 w (sleep 500 w1)" "within 172 w w1"
    using a by (auto intro: within_sleep within_mono)
  show "within 172 w (snd (wait_for_chart e s w))"
    using u p a' abc abd by (cases r) (simp_all add: wait_for_chart_def)
next
  assume "\<forall>selector w. fst (respond e (FindElement selector) w) \<le> d
                       \<and> fst (respond e (FindElements selector) w) \<le> d"
  then show "clock (snd (wait_for_chart e s w))
          \<le> clock w + (if use_save_shortcut s then 9700 + 8 * d else 10200 + 10 * d)"
    by (rule duration_wait_for_chart)
next
  assume "\<forall>selector w. no_other_exception (snd (respond e (FindElement selector) w))"
  then obtain r w1 where "until e (clock w + MAX_CHART_WAIT_TIME) w = (r, w1)"
    and "r = Inr () \<or> r = Inl TimeoutException"
    using until_no_other_exception by blast
  then show "fst (wait_for_chart e s w) = Inr ()"
    by (auto simp: wait_for_chart_def split: prod.splits)
qed

lemma throwing_dom_calls:
  "driver_call (throwing_dom_env x) (FindElement selector) w
     = (Inr VOther, \<lparr>clock = clock w + 100, trace = trace w @ [FindElement selector]\<rparr>)"
  "driver_call (throwing_dom_env x) (FindElements selector) w
     = (Inl x, \<lparr>clock = clock w + 100, trace = trace w @ [FindElements selector]\<rparr>)"
  by (simp_all add: driver_call_eq throwing_dom_env_def quiet_env_def)

lemma throwing_dom_until:
  "until (throwing_dom_env x) end_time w
     = (Inr (),
        \<lparr>clock = clock w + 100,
         trace = trace w @ [FindElement ''#header-toolbar-chart-styles'']\<rparr>)"
  by (subst until.simps) (simp add: infrastructure_selectors_def throwing_dom_calls)

lemma throwing_dom_probes:
  "element_probe (throwing_dom_env x) w
     = (False, \<lparr>clock = clock w + 100, trace = trace w @ [FindElements canvas_selector]\<rparr>)"
  "data_probe (throwing_dom_env x) w
     = (False, \<lparr>clock = clock w + 100, trace = trace w @ [FindElements legend_selector]\<rparr>)"
  "loading_probe (throwing_dom_env x) w
     = (False, \<lparr>clock = clock w + 100, trace = trace w @ [FindElements spinner_selector]\<rparr>)"
  by (simp_all add: element_probe_def data_probe_def loading_probe_def swallow_def and_then_def
      throwing_dom_calls)

text \<open>
  Every pass of a loop takes a fifth of a second there: ten passes of the element loop and
  of the data loop, eight of the spinner loop.
\<close>

lemma throwing_dom_element_poll:
  "n + i = 10 \<Longrightarrow> clock w = start + 200 * i \<Longrightarrow>
     element_poll (throwing_dom_env x) start w
       = (False,
          \<lparr>clock = start + 2000,
           trace = trace w @ replicate n (FindElements canvas_selector)\<rparr>)"
proof (induction n arbitrary: i w)
  case 0
  then show ?case by (subst element_poll.simps) simp
next
  case (Suc n)
  let ?w = "sleep 100 \<lparr>clock = clock w + 100, trace = trace w @ [FindElements canvas_selector]\<rparr>"
  have "element_poll (throwing_dom_env x) start ?w
       = (False,
          \<lparr>clock = start + 2000,
           trace = trace ?w @ replicate n (FindElements canvas_selector)\<rparr>)"
    using Suc.prems by (intro Suc.IH [of "Suc i"]) (simp_all add: sleep_def)
  then show ?case
    using Suc.prems
    by (subst element_poll.simps) (simp add: throwing_dom_probes sleep_def replicate_app_Cons_same)
qed

lemma throwing_dom_data_poll:
  "n + i = 10 \<Longrightarrow> clock w = start + 200 * i \<Longrightarrow>
     data_poll (throwing_dom_env x) start w
       = (False,
          \<lparr>clock = start + 2000,
           trace = trace w @ replicate n (FindElements legend_selector)\<rparr>)"
proof (induction n arbitrary: i w)
  case 0
  then show ?case by (subst data_poll.simps) simp
next
  case (Suc n)
  let ?w = "sleep 100 \<lparr>clock = clock w + 100, trace = trace w @ [FindElements legend_selector]\<rparr>"
  have "data_poll (throwing_dom_env x) start ?w
       = (False,
          \<lparr>clock = start + 2000,
           trace = trace ?w @ replicate n (FindElements legend_selector)\<rparr>)"
    using Suc.prems by (intro Suc.IH [of "Suc i"]) (simp_all add: sleep_def)
  then show ?case
    using Suc.prems
    by (subst data_poll.simps) (simp add: throwing_dom_probes sleep_def replicate_app_Cons_same)
qed

lemma throwing_dom_wait_for_chart:
  "wait_for_chart (throwing_dom_env x) (live_scraper False) fresh
     = (Inr (),
        \<lparr>clock = 4100,
         trace = FindElement ''#header-toolbar-chart-styles''
                 # replicate 10 (FindElements canvas_selector)
                 @ replicate 10 (FindElements legend_selector)\<rparr>)"
proof -
  let ?w1 = "\<lparr>clock = 100, trace = [FindElement ''#header-toolbar-chart-styles'']\<rparr>"
  let ?w2 = "\<lparr>clock = 2100,
              trace = FindElement ''#header-toolbar-chart-styles''
                      # replicate 10 (FindElements canvas_selector)\<rparr>"
  have u: "until (throwing_dom_env x) (clock fresh + MAX_CHART_WAIT_TIME) fresh = (Inr (), ?w1)"
    by (simp add: throwing_dom_until fresh_def)
  have p: "element_poll (throwing_dom_env x) (clock ?w1) ?w1 = (False, ?w2)"
    using throwing_dom_element_poll [of 10 0 ?w1 100 x] by simp
  have d: "data_poll (throwing_dom_env x) (clock ?w2) ?w2
      = (False,
         \<lparr>clock = 4100,
          trace = FindElement ''#header-toolbar-chart-styles''
                  # replicate 10 (FindElements canvas_selector)
                  @ replicate 10 (FindElements legend_selector)\<rparr>)"
    using throwing_dom_data_poll [of 10 0 ?w2 2100 x] by simp
  show ?thesis
    unfolding wait_for_chart_def u
    by (simp only: p d prod.case sum.case live_scraper_def scraper.simps if_False snd_conv)
qed

theorem readiness_probing_bounded_witness:
  "(\<forall>selector w.
      fst (respond (throwing_dom_env OSError) (FindElement selector) w) \<le> 100
      \<and> fst (respond (throwing_dom_env OSError) (FindElements selector) w) \<le> 100)
   \<and> (\<forall>selector w.
         no_other_exception (snd (respond (throwing_dom_env OSError) (FindElement selector) w)))
   \<and> wait_for_chart (throwing_dom_env OSError) (live_scraper False) fresh
       = (Inr (),
          \<lparr>clock = 4100,
           trace = FindElement ''#header-toolbar-chart-styles''
                   # replicate 10 (FindElements canvas_selector)
                   @ replicate 10 (FindElements legend_selector)\<rparr>)
   \<and> within 172 fresh (snd (wait_for_chart (throwing_dom_env OSError) (live_scraper False) fresh))
   \<and> clock (snd (wait_for_chart (throwing_dom_env OSError) (live_scraper False) fresh))
       \<le> clock fresh + (10200 + 10 * 100)
   \<and> fst (wait_for_chart (throwing_dom_env OSError) (live_scraper False) fresh) = Inr ()"
proof -
  have slow: "\<forall>selector w.
      fst (respond (throwing_dom_env OSError) (FindElement selector) w) \<le> 100
      \<and> fst (respond (throwing_dom_env OSError) (FindElements selector) w) \<le> 100"
    by (simp add: throwing_dom_env_def quiet_env_def)
  have h: "\<forall>selector w.
      no_other_exception (snd (respond (throwing_dom_env OSError) (FindElement selector) w))"
    by (simp add: throwing_dom_env_def quiet_env_def no_other_exception_def)
  have m: "\<not> use_save_shortcut (live_scraper False)" by (simp add: live_scraper_def)
  note t = readiness_probing_bounded
    [of fresh "throwing_dom_env OSError" "live_scraper False" 100]
  have t1: "within 172 fresh
      (snd (wait_for_chart (throwing_dom_env OSError) (live_scraper False) fresh))"
    using t by (rule conjunct1)
  have t2: "clock (snd (wait_for_chart (throwing_dom_env OSError) (live_scraper False) fresh))
       \<le> clock fresh + (10200 + 10 * 100)"
    using t [THEN conjunct2, THEN conjunct1, THEN mp, OF slow] m by simp
  have t3: "fst (wait_for_chart (throwing_dom_env OSError) (live_scraper False) fresh) = Inr ()"
    using t [THEN conjunct2, THEN conjunct2, THEN mp, OF h] .
  show ?thesis
    by (intro conjI) (rule slow h throwing_dom_wait_for_chart t1 t2 t3)+
qed

lemma slow_dom_calls:
  "driver_call slow_dom_env (FindElement selector) w
     = (Inr VOther, \<lparr>clock = clock w, trace = trace w @ [FindElement selector]\<rparr>)"
  "driver_call slow_dom_env (FindElements selector) w
     = (Inr (VList 0), \<lparr>clock = clock w + 1000, trace = trace w @ [FindElements selector]\<rparr>)"
  by (simp_all add: driver_call_eq slow_dom_env_def quiet_env_def)

lemma slow_dom_until:
  "until slow_dom_env end_time w
     = (Inr (), \<lparr>clock = clock w, trace = trace w @ [FindElement ''#header-toolbar-chart-styles'']\<rparr>)"
  by (subst until.simps) (simp add: infrastructure_selectors_def slow_dom_calls)

lemma slow_dom_element_poll:
  "element_poll slow_dom_env (clock w) w
     = (False,
        \<lparr>clock = clock w + 3100,
         trace = trace w @ [FindElements canvas_selector, FindElements widget_selector,
                            FindElements price_selector]\<rparr>)"
  apply (subst element_poll.simps)
  apply (simp add: element_probe_def swallow_def and_then_def slow_dom_calls sleep_def)
  apply (subst element_poll.simps)
  apply simp
  done

lemma slow_dom_data_poll:
  "data_poll slow_dom_env (clock w) w
     = (False,
        \<lparr>clock = clock w + 3100,
         trace = trace w @ [FindElements legend_selector, FindElements canvas_selector,
                            FindElements spinner_selector]\<rparr>)"
  apply (subst data_poll.simps)
  apply (simp add: data_probe_def swallow_def and_then_def slow_dom_calls sleep_def)
  apply (subst data_poll.simps)
  apply simp
  done

text \<open>
  The claim as stated fails: when the application shell is found at once and every
  \<^verbatim>\<open>find_elements\<close> takes the second of the implicit wait and finds nothing, the probing of
  the traditional method ends normally after 6.2 seconds, more than
  \<^verbatim>\<open>MAX_CHART_WAIT_TIME\<close>.
\<close>

theorem readiness_exceeds_max_wait_counterexample:
  "wait_for_chart slow_dom_env (live_scraper False) fresh
     = (Inr (),
        \<lparr>clock = 6200,
         trace = [FindElement ''#header-toolbar-chart-styles'',
                  FindElements canvas_selector, FindElements widget_selector,
                  FindElements price_selector,
                  FindElements legend_selector, FindElements canvas_selector,
                  FindElements spinner_selector]\<rparr>)
   \<and> MAX_CHART_WAIT_TIME < 6200"
proof -
  have e: "element_poll slow_dom_env 0
             \<lparr>clock = 0, trace = [FindElement ''#header-toolbar-chart-styles'']\<rparr>
         = (False,
            \<lparr>clock = 3100,
             trace = [FindElement ''#header-toolbar-chart-styles'',
                      FindElements canvas_selector, FindElements widget_selector,
                      FindElements price_selector]\<rparr>)"
    using slow_dom_element_poll
      [of "\<lparr>clock = 0, trace = [FindElement ''#header-toolbar-chart-styles'']\<rparr>"]
    by simp
  have d: "data_poll slow_dom_env 3100
             \<lparr>clock = 3100,
              trace = [FindElement ''#header-toolbar-chart-styles'',
                       FindElements canvas_selector, FindElements widget_selector,
                       FindElements price_selector]\<rparr>
         = (False,
            \<lparr>clock = 6200,
             trace = [FindElement ''#header-toolbar-chart-styles'',
                      FindElements canvas_selector, FindElements widget_selector,
                      FindElements price_selector,
                      FindElements legend_selector, FindElements canvas_selector,
                      FindElements spinner_selector]\<rparr>)"
    using slow_dom_data_poll
      [of "\<lparr>clock = 3100,
              trace = [FindElement ''#header-toolbar-chart-styles'',
                       FindElements canvas_selector, FindElements widget_selector,
                       FindElements price_selector]\<rparr>"]
    by simp
  show ?thesis
    by (simp add: wait_for_chart_def slow_dom_until fresh_def e d live_scraper_def
        MAX_CHART_WAIT_TIME_def)
qed

section \<open>Properties of the retry loops: exhaustion and late success\<close>

lemma strip_empty_all_space: "strip u = [] \<Longrightarrow> c \<in> set u \<Longrightarrow> is_space c"
proof -
  assume s: "strip u = []" and c: "c \<in> set u"
  have d: "dropWhile is_space (rev (dropWhile is_space u)) = []"
    using s by (simp add: strip_def)
  have "dropWhile is_space u = []"
  proof (rule ccontr)
    assume n: "dropWhile is_space u \<noteq> []"
    then have "\<not> is_space (hd (dropWhile is_space u))" by (rule hd_dropWhile)
    moreover have "hd (dropWhile is_space u) \<in> set (rev (dropWhile is_space u))"
      using n by simp
    ultimately show False using d by (simp only: dropWhile_eq_Nil_conv) blast
  qed
  then show ?thesis using c by (simp add: dropWhile_eq_Nil_conv)
qed


text \<open>
  A blank text is no image: what yields nothing as a text yields no image either.
\<close>

lemma yields_nothing_no_image: "yields_nothing r \<Longrightarrow> no_image e r"
proof (cases r)
  case (Inl x)
  assume "yields_nothing r"
  then show ?thesis using Inl by (simp add: yields_nothing_def no_image_def)
next
  case (Inr v)
  assume "yields_nothing r"
  then have b: "blank v" using Inr by (simp add: yields_nothing_def)
  show ?thesis
  proof (cases v)
    case (VStr u)
    then have s: "strip u = []" using b by simp
    have "\<not> prefix ''data:image/'' u"
    proof
      assume "prefix ''data:image/'' u"
      then have "CHR ''d'' \<in> set u" by (auto simp: prefix_def)
      then have "is_space (CHR ''d'')" using s by (rule strip_empty_all_space [rotated])
      then show False by (simp add: is_space_def)
    qed
    then show ?thesis using Inr VStr by (simp add: no_image_def)
  qed (use b Inr in \<open>auto simp: no_image_def\<close>)
qed
















end
